theory Spec2Isabelle
  imports Complex_Main "HOL-Library.Sublist" "HOL-Library.Signed_Division" "HOL-Library.AList" "HOL-Library.Log_Nat"
begin

chapter \<open>Definitions\<close>

section \<open>The container janitor (scripts/remove\_all.py)\<close>

text \<open>
  An exception is a value; the janitor only logs its message, so no result depends on it.
\<close>

datatype exn = Exception string

text \<open>
  What \<^verbatim>\<open>datetime.fromisoformat(created_str.replace('Z', '+00:00'))\<close> yields: an instant
  in microseconds since the epoch, either without an offset (naive) or with one (aware,
  normalised to UTC). Subtracting a naive instant from the aware
  \<^verbatim>\<open>datetime.now(timezone.utc)\<close> raises TypeError.
\<close>

datatype datetime = Naive int | Aware int

text \<open>
  A container object of the runtime, as far as the script reads it:
  \<^item> \<open>cid\<close>: \<^verbatim>\<open>container.id\<close>;
  \<^item> \<open>image_tags\<close>: \<^verbatim>\<open>container.image\<close>, an access that may raise, may give
    \<^verbatim>\<open>None\<close>, or gives an image with its list of tags;
  \<^item> \<open>created\<close>: the lookup \<^verbatim>\<open>container.attrs['Created']\<close> followed by the parse,
    either of which may raise;
  \<^item> \<open>remove_raises\<close>: whether \<^verbatim>\<open>container.remove(force=True)\<close> raises
    (\<open>None\<close>: it returns and the container is gone).
\<close>

record container =
  cid :: string
  image_tags :: "exn + string list option"
  created :: "exn + datetime"
  remove_raises :: "exn option"

text \<open>
  Python's \<^verbatim>\<open>float\<close> is the IEEE 754 double: a float is modelled by the rational it
  denotes, and every operation on floats gives the double nearest to the exact result,
  a tie going to the even mantissa. \<open>binary_exponent x\<close> is the \<open>e\<close> with
  \<open>2 ^ e \<le> x < 2 ^ (e + 1)\<close> for a positive \<open>x\<close>; \<open>double_round x\<close> keeps 53 bits of mantissa.
  The exponent is not bounded: the differences of two datetimes lie between a
  microsecond and 10000 years, far inside the range of the normal doubles.
\<close>

definition binary_exponent :: "rat \<Rightarrow> int" where
  "binary_exponent x = (if 1 \<le> x then bitlen \<lfloor>x\<rfloor> - 1 else - bitlen (\<lceil>1 / x\<rceil> - 1))"

definition round_half_even :: "rat \<Rightarrow> int" where
  "round_half_even y =
     (let f = \<lfloor>y\<rfloor>; r = y - of_int f in
      if r < 1 / 2 then f else if 1 / 2 < r then f + 1 else if even f then f else f + 1)"

definition double_round :: "rat \<Rightarrow> rat" where
  "double_round x =
     (if x = 0 then 0
      else let e = binary_exponent \<bar>x\<bar> - 52
           in sgn x * of_int (round_half_even (\<bar>x\<bar> / 2 powi e)) * 2 powi e)"

text \<open>
  \<^verbatim>\<open>timedelta.total_seconds()\<close> of a difference of \<open>d\<close> microseconds: the quotient of
  two integers, \<open>d / 10**6\<close>, as a float. \<^verbatim>\<open>int(x)\<close> of a float truncates toward zero.
\<close>

definition total_seconds :: "int \<Rightarrow> rat" where
  "total_seconds d = double_round (of_int d / 1000000)"

definition py_int :: "rat \<Rightarrow> int" where
  "py_int x = (if 0 \<le> x then \<lfloor>x\<rfloor> else \<lceil>x\<rceil>)"

text \<open>
  \<^verbatim>\<open>get_container_age_minutes\<close>, with the reading of the clock (microseconds) as an
  argument: \<^verbatim>\<open>age_seconds / 60\<close> divides floats.
  Every exception of the body is caught and turned into \<^verbatim>\<open>None\<close>.
\<close>

definition get_container_age_minutes :: "int \<Rightarrow> container \<Rightarrow> int option" where
  "get_container_age_minutes now c =
     (case created c of
        Inl e \<Rightarrow> None
      | Inr (Naive t) \<Rightarrow> None
      | Inr (Aware t) \<Rightarrow>
          let age_seconds = total_seconds (now - t);
              age_minutes = py_int (double_round (age_seconds / 60))
          in Some age_minutes)"

text \<open>
  The first loop of \<^verbatim>\<open>remove_old_containers\<close>: keep the containers one of whose image
  tags contains \<open>image_name\<close> as a substring. A container whose image cannot be read is
  skipped with a warning; a container without image has no tags.
\<close>

fun matching_containers :: "string \<Rightarrow> container list \<Rightarrow> container list" where
  "matching_containers image_name [] = []"
| "matching_containers image_name (c # cs) =
     (case image_tags c of
        Inl e \<Rightarrow> matching_containers image_name cs
      | Inr None \<Rightarrow> matching_containers image_name cs
      | Inr (Some tags) \<Rightarrow>
          if list_ex (\<lambda>tag. sublist image_name tag) tags
          then c # matching_containers image_name cs
          else matching_containers image_name cs)"

text \<open>
  The branch the second loop takes for one container, named after the line it logs:
  the age could not be computed; a dry run would remove it; it was removed; the removal
  raised; it is too young.
\<close>

datatype outcome = AgeFailed | WouldRemove | Removed | RemoveFailed | TooYoung

text \<open>
  The state of the second loop: the two counters the function returns, and the branches
  taken so far, one per container processed, in order. \<open>Removed\<close> at position \<open>i\<close> is the
  effect on the runtime: the \<open>i\<close>-th matching container no longer exists.
\<close>

record sweep =
  removed_count :: nat
  failed_count :: nat
  outcomes :: "outcome list"

definition no_sweep :: sweep where
  "no_sweep = \<lparr>removed_count = 0, failed_count = 0, outcomes = []\<rparr>"

text \<open>The body of the second loop, for one container.\<close>

definition process_container :: "int \<Rightarrow> int \<Rightarrow> bool \<Rightarrow> container \<Rightarrow> sweep \<Rightarrow> sweep" where
  "process_container now min_age_minutes dry_run c s =
     (case get_container_age_minutes now c of
        None \<Rightarrow>
          s\<lparr>failed_count := failed_count s + 1, outcomes := outcomes s @ [AgeFailed]\<rparr>
      | Some age_minutes \<Rightarrow>
          if age_minutes \<ge> min_age_minutes then
            if dry_run then
              s\<lparr>removed_count := removed_count s + 1, outcomes := outcomes s @ [WouldRemove]\<rparr>
            else
              (case remove_raises c of
                 None \<Rightarrow>
                   s\<lparr>removed_count := removed_count s + 1, outcomes := outcomes s @ [Removed]\<rparr>
               | Some e \<Rightarrow>
                   s\<lparr>failed_count := failed_count s + 1, outcomes := outcomes s @ [RemoveFailed]\<rparr>)
          else s\<lparr>outcomes := outcomes s @ [TooYoung]\<rparr>)"

text \<open>
  The second loop. Each iteration reads the clock once: \<open>clock i\<close> is the reading taken
  for the \<open>i\<close>-th matching container.
\<close>

fun process_containers ::
  "(nat \<Rightarrow> int) \<Rightarrow> nat \<Rightarrow> int \<Rightarrow> bool \<Rightarrow> container list \<Rightarrow> sweep \<Rightarrow> sweep" where
  "process_containers clock i min_age_minutes dry_run [] s = s"
| "process_containers clock i min_age_minutes dry_run (c # cs) s =
     process_containers clock (Suc i) min_age_minutes dry_run cs
       (process_container (clock i) min_age_minutes dry_run c s)"

text \<open>
  The container runtime as the script sees it: whether \<^verbatim>\<open>docker.from_env()\<close> raises,
  what \<^verbatim>\<open>client.containers.list(all=True)\<close> gives, and the clock.
\<close>

record docker =
  from_env :: "exn option"
  containers_list :: "exn + container list"
  utc_now :: "nat \<Rightarrow> int"

text \<open>
  \<^verbatim>\<open>remove_old_containers\<close>. The function returns the pair of counters
  (\<open>sweep_result\<close>); the model keeps the branches taken beside them.
\<close>

definition remove_old_containers :: "docker \<Rightarrow> string \<Rightarrow> int \<Rightarrow> bool \<Rightarrow> sweep" where
  "remove_old_containers d image_name min_age_minutes dry_run =
     (case from_env d of
        Some e \<Rightarrow> no_sweep
      | None \<Rightarrow>
          (case containers_list d of
             Inl e \<Rightarrow> no_sweep
           | Inr all_containers \<Rightarrow>
               let matching = matching_containers image_name all_containers in
               if matching = [] then no_sweep
               else process_containers (utc_now d) 0 min_age_minutes dry_run matching no_sweep))"

definition sweep_result :: "sweep \<Rightarrow> nat \<times> nat" where
  "sweep_result s = (removed_count s, failed_count s)"

text \<open>
  Reading the branches: a removal was attempted (the real run called
  \<^verbatim>\<open>container.remove\<close>), a container was selected (attempted, or reported by the dry
  run), a failure was counted.
\<close>

definition attempted :: "outcome \<Rightarrow> bool" where
  "attempted out = (out = Removed \<or> out = RemoveFailed)"

definition selected :: "outcome \<Rightarrow> bool" where
  "selected out = (out = WouldRemove \<or> attempted out)"

definition counted_removed :: "outcome \<Rightarrow> bool" where
  "counted_removed out = (out = WouldRemove \<or> out = Removed)"

definition counted_failed :: "outcome \<Rightarrow> bool" where
  "counted_failed out = (out = AgeFailed \<or> out = RemoveFailed)"

text \<open>The branch taken for one container, read off a run of the loop body.\<close>

definition container_outcome :: "int \<Rightarrow> int \<Rightarrow> bool \<Rightarrow> container \<Rightarrow> outcome" where
  "container_outcome now min_age_minutes dry_run c =
     last (outcomes (process_container now min_age_minutes dry_run c no_sweep))"

text \<open>
  The branches the second loop takes over a list of containers, container by container,
  the first one read at \<open>clock i\<close>.
\<close>

definition loop_outcomes ::
  "(nat \<Rightarrow> int) \<Rightarrow> nat \<Rightarrow> int \<Rightarrow> bool \<Rightarrow> container list \<Rightarrow> outcome list" where
  "loop_outcomes clock i m dr cs =
     map (\<lambda>k. container_outcome (clock (i + k)) m dr (cs ! k)) [0..<length cs]"

text \<open>The parsed command line, and \<^verbatim>\<open>main\<close>, whose value is the exit status.\<close>

record args =
  min_age :: int
  dry_run :: bool
  image_arg :: string

definition main :: "docker \<Rightarrow> args \<Rightarrow> nat" where
  "main d a =
     (let (removed, failed) =
            sweep_result (remove_old_containers d (image_arg a) (min_age a) (dry_run a))
      in if failed > 0 then 1 else 0)"

text \<open>Containers and runtimes used as concrete inputs below.\<close>

definition old_container :: container where
  "old_container =
     \<lparr>cid = ''0123456789abcdef'', image_tags = Inr (Some [''happysixd/osworld-docker:latest'']),
      created = Inr (Aware 0), remove_raises = None\<rparr>"

definition stuck_container :: container where
  "stuck_container = old_container\<lparr>cid := ''1123456789abcdef'',
     remove_raises := Some (Exception ''409 Conflict'')\<rparr>"

definition young_container :: container where
  "young_container = old_container\<lparr>cid := ''2123456789abcdef'',
     created := Inr (Aware 540000000)\<rparr>"

definition undated_container :: container where
  "undated_container = old_container\<lparr>cid := ''3123456789abcdef'',
     created := Inl (Exception ''Invalid isoformat string'')\<rparr>"

definition foreign_container :: container where
  "foreign_container = old_container\<lparr>cid := ''4123456789abcdef'',
     image_tags := Inr (Some [''postgres:16''])\<rparr>"

definition future_container :: container where
  "future_container = old_container\<lparr>cid := ''5123456789abcdef'',
     created := Inr (Aware 630000000)\<rparr>"

text \<open>
  A container whose \<^verbatim>\<open>Created\<close> is \<^verbatim>\<open>0001-01-01T00:00:00Z\<close>, the zero value of
  the runtime's timestamps: 62135596800 seconds before the epoch.
\<close>

definition ancient_container :: container where
  "ancient_container = old_container\<lparr>cid := ''6123456789abcdef'',
     created := Inr (Aware (- 62135596800000000))\<rparr>"

text \<open>
  A runtime holding five containers, read at 600 seconds after the epoch: the ages are
  10 minutes, 10 minutes, 1 minute, unknown and 10 minutes.
\<close>

definition example_docker :: docker where
  "example_docker =
     \<lparr>from_env = None,
      containers_list =
        Inr [stuck_container, old_container, young_container, undated_container,
             foreign_container],
      utc_now = (\<lambda>i. 600000000)\<rparr>"

definition unreachable_docker :: docker where
  "unreachable_docker = example_docker\<lparr>from_env := Some (Exception ''connection refused'')\<rparr>"

section \<open>The client of tests/concurrency\_test.py\<close>

text \<open>
  A parsed JSON value as Python holds it. Numbers are integers or floats (a float is
  modelled by the rational it denotes); an object is its list of members.
\<close>

datatype json =
    JNull
  | JBool bool
  | JInt int
  | JFloat rat
  | JStr string
  | JList "json list"
  | JObj "(string \<times> json) list"

text \<open>
  A response of the HTTP library: \<^verbatim>\<open>r.ok\<close>, \<^verbatim>\<open>r.status_code\<close>, the value of
  \<^verbatim>\<open>r.json()\<close> (\<open>None\<close> when it raises) and \<^verbatim>\<open>r.text\<close>.
\<close>

record response =
  ok :: bool
  status_code :: nat
  json_body :: "json option"
  body_text :: string

text \<open>
  \<^verbatim>\<open>session.post(url, json=payload, timeout=t)\<close>: the answer of the network, a
  response or a transport exception.
\<close>

type_synonym session = "string \<Rightarrow> json \<Rightarrow> int \<Rightarrow> exn + response"

text \<open>\<^verbatim>\<open>_join\<close>: one slash between the base and the path.\<close>

definition join :: "string \<Rightarrow> string \<Rightarrow> string" where
  "join base path =
     rev (dropWhile (\<lambda>ch. ch = CHR ''/'') (rev base)) @ ''/'' @ dropWhile (\<lambda>ch. ch = CHR ''/'') path"

text \<open>
  Python on JSON values: \<^verbatim>\<open>d.get(key)\<close> (\<^verbatim>\<open>None\<close> for a missing key),
  \<^verbatim>\<open>d.get(key, default)\<close>, the truth value of an object in a condition, and the
  comparison \<^verbatim>\<open>v == 0\<close>, which holds for the integer 0, the float 0.0 and \<^verbatim>\<open>False\<close>.
\<close>

definition py_get :: "(string \<times> json) list \<Rightarrow> string \<Rightarrow> json" where
  "py_get members k = (case map_of members k of None \<Rightarrow> JNull | Some v \<Rightarrow> v)"

definition py_get_default :: "(string \<times> json) list \<Rightarrow> string \<Rightarrow> json \<Rightarrow> json" where
  "py_get_default members k dflt = (case map_of members k of None \<Rightarrow> dflt | Some v \<Rightarrow> v)"

fun truthy :: "json \<Rightarrow> bool" where
  "truthy JNull = False"
| "truthy (JBool b) = b"
| "truthy (JInt n) = (n \<noteq> 0)"
| "truthy (JFloat q) = (q \<noteq> 0)"
| "truthy (JStr s) = (s \<noteq> [])"
| "truthy (JList vs) = (vs \<noteq> [])"
| "truthy (JObj members) = (members \<noteq> [])"

fun py_eq_zero :: "json \<Rightarrow> bool" where
  "py_eq_zero (JInt n) = (n = 0)"
| "py_eq_zero (JFloat q) = (q = 0)"
| "py_eq_zero (JBool b) = (\<not> b)"
| "py_eq_zero v = False"

text \<open>The message of the AttributeError that \<^verbatim>\<open>v.get\<close> raises when \<open>v\<close> is no dict.\<close>

fun type_name :: "json \<Rightarrow> string" where
  "type_name JNull = ''NoneType''"
| "type_name (JBool b) = ''bool''"
| "type_name (JInt n) = ''int''"
| "type_name (JFloat q) = ''float''"
| "type_name (JStr s) = ''str''"
| "type_name (JList vs) = ''list''"
| "type_name (JObj members) = ''dict''"

definition attribute_error :: "json \<Rightarrow> string" where
  "attribute_error v = [CHR 0x27] @ type_name v @ [CHR 0x27] @ '' object has no attribute ''
     @ [CHR 0x27] @ ''get'' @ [CHR 0x27]"

text \<open>
  The second component of the result: the dict with \<^verbatim>\<open>status_code\<close>, \<^verbatim>\<open>data\<close>
  and \<^verbatim>\<open>emulator_id\<close>, the dict with \<^verbatim>\<open>status_code\<close> and \<^verbatim>\<open>data\<close>, or the dict
  with \<^verbatim>\<open>error\<close>.
\<close>

datatype details =
    Started nat json json
  | Rejected nat json
  | Failed string

text \<open>
  The value of \<^verbatim>\<open>data\<close> after the inner \<^verbatim>\<open>try\<close>: the parsed body, or the dict
  with the text of the response when \<^verbatim>\<open>r.json()\<close> raises.
\<close>

definition response_data :: "response \<Rightarrow> json" where
  "response_data r =
     (case json_body r of
        Some v \<Rightarrow> v
      | None \<Rightarrow> JObj [(''text'', JStr (body_text r))])"

text \<open>
  \<^verbatim>\<open>start_emulator\<close>. When \<^verbatim>\<open>data.get("data", {})\<close> is no dict, its \<^verbatim>\<open>.get\<close>
  raises AttributeError inside the outer \<^verbatim>\<open>try\<close>, and the function returns the dict
  with \<^verbatim>\<open>error\<close>.
\<close>

definition start_emulator :: "session \<Rightarrow> string \<Rightarrow> string \<Rightarrow> int \<Rightarrow> bool \<times> details" where
  "start_emulator session base_url token request_timeout =
     (let url = join base_url ''start_emulator'' in
      case session url (JObj [(''token'', JStr token)]) request_timeout of
        Inl (Exception msg) \<Rightarrow> (False, Failed msg)
      | Inr r \<Rightarrow>
          let data = response_data r
          in (case data of
                JObj members \<Rightarrow>
                  if ok r \<and> py_eq_zero (py_get members ''code'') then
                    (case py_get_default members ''data'' (JObj []) of
                       JObj inner \<Rightarrow>
                         if truthy (py_get inner ''emulator_id'')
                         then (True, Started (status_code r) data (py_get inner ''emulator_id''))
                         else (False, Rejected (status_code r) data)
                     | other \<Rightarrow> (False, Failed (attribute_error other)))
                  else (False, Rejected (status_code r) data)
              | other \<Rightarrow> (False, Rejected (status_code r) data)))"

text \<open>
  The condition of a success in words: the status is OK, the body is an object whose
  \<^verbatim>\<open>code\<close> equals 0, and its \<^verbatim>\<open>data\<close> is an object whose \<^verbatim>\<open>emulator_id\<close> is
  present and true in a condition (for a string: not empty).
\<close>

definition accepted :: "response \<Rightarrow> bool" where
  "accepted r \<longleftrightarrow>
     ok r \<and>
     (\<exists>members inner code_v eid.
        json_body r = Some (JObj members)
        \<and> map_of members ''code'' = Some code_v \<and> py_eq_zero code_v
        \<and> map_of members ''data'' = Some (JObj inner)
        \<and> map_of inner ''emulator_id'' = Some eid \<and> truthy eid)"

text \<open>
  The condition under which the lookup of \<^verbatim>\<open>emulator_id\<close> raises: the status is OK,
  the body is an object whose \<^verbatim>\<open>code\<close> equals 0, and its member \<^verbatim>\<open>data\<close> is present
  and is no object.
\<close>

definition data_not_dict :: "response \<Rightarrow> bool" where
  "data_not_dict r \<longleftrightarrow>
     ok r \<and>
     (\<exists>members code_v v.
        json_body r = Some (JObj members)
        \<and> map_of members ''code'' = Some code_v \<and> py_eq_zero code_v
        \<and> map_of members ''data'' = Some v \<and> (\<forall>inner. v \<noteq> JObj inner))"

text \<open>Answers of the network used as concrete inputs below.\<close>

definition granted_response :: response where
  "granted_response =
     \<lparr>ok = True, status_code = 200,
      json_body = Some (JObj [(''code'', JInt 0),
        (''data'', JObj [(''emulator_id'', JStr ''emu-1''), (''vnc_port'', JInt 5900)])]),
      body_text = []\<rparr>"

definition gateway_response :: response where
  "gateway_response =
     \<lparr>ok = False, status_code = 502, json_body = None, body_text = ''Bad Gateway''\<rparr>"

definition denied_response :: response where
  "denied_response =
     \<lparr>ok = False, status_code = 429,
      json_body = Some (JObj [(''code'', JInt 429), (''message'', JStr ''quota exceeded'')]),
      body_text = []\<rparr>"

definition null_data_response :: response where
  "null_data_response =
     \<lparr>ok = True, status_code = 200,
      json_body = Some (JObj [(''code'', JInt 0), (''data'', JNull)]),
      body_text = []\<rparr>"

definition granting_session :: session where
  "granting_session url payload t = Inr granted_response"

definition gateway_session :: session where
  "gateway_session url payload t = Inr gateway_response"

definition denying_session :: session where
  "denying_session url payload t = Inr denied_response"

definition null_data_session :: session where
  "null_data_session url payload t = Inr null_data_response"

definition broken_session :: session where
  "broken_session url payload t = Inl (Exception ''Connection refused'')"

section \<open>Recognising a quota denial (env\_load\_test.py, env\_test\_parallel\_test.py)\<close>

text \<open>
  \<^verbatim>\<open>str.lower\<close>. Strings are byte strings in UTF-8; the model lowers the ASCII letters
  and leaves every other byte. Python also lowers letters outside ASCII, none of them
  to a letter of the phrase searched for, so the search below is not affected.
\<close>

definition lower_char :: "char \<Rightarrow> char" where
  "lower_char ch =
     (case map_of (zip ''ABCDEFGHIJKLMNOPQRSTUVWXYZ'' ''abcdefghijklmnopqrstuvwxyz'') ch of
        Some l \<Rightarrow> l
      | None \<Rightarrow> ch)"

definition lower :: "string \<Rightarrow> string" where
  "lower s = map lower_char s"

text \<open>The two Chinese characters of the load tests' second pattern, in UTF-8.\<close>

definition over_limit :: string where
  "over_limit = [CHR 0xE8, CHR 0xB6, CHR 0x85, CHR 0xE8, CHR 0xBF, CHR 0x87]"

text \<open>
  The conditions under which the scripts print that the quota limit took effect: the one
  of env\_load\_test.py and env\_load\_test\_multi.py, and the one of
  env\_test\_parallel\_test.py.
\<close>

definition load_test_quota_error :: "string \<Rightarrow> bool" where
  "load_test_quota_error error_msg =
     (sublist ''quota exceeded'' (lower error_msg) \<or> sublist over_limit error_msg)"

definition parallel_test_quota_error :: "string \<Rightarrow> bool" where
  "parallel_test_quota_error error_msg =
     (sublist ''quota exceeded'' (lower error_msg) \<or> sublist ''429'' error_msg)"

section \<open>The test scripts\<close>

text \<open>
  The scripts start environments through the constructor \<^verbatim>\<open>DesktopEnv(...)\<close> of the
  client library. Of the result they use the emulator id and the address \<^verbatim>\<open>ip:port\<close>
  of the backend server it runs on; its ports are only printed.
\<close>

record desktop_env =
  emulator_id :: nat
  remote_docker_server :: string

text \<open>
  The constructor raises: the scripts tell \<^verbatim>\<open>RuntimeError\<close> from every other
  exception. A launcher is the constructor as a function of the state \<open>'w\<close> of the
  world outside the script.
\<close>

datatype launch_error = RuntimeError string | OtherError string

type_synonym 'w launcher = "'w \<Rightarrow> (launch_error + desktop_env) \<times> 'w"


text \<open>
  The entry of \<^verbatim>\<open>GET /tokens\<close> for the token: \<^verbatim>\<open>{current, limit}\<close>.
\<close>

record quota_info =
  current :: int
  limit :: int

subsection \<open>env\_load\_test.py\<close>

definition MAX_ATTEMPTS :: nat where
  "MAX_ATTEMPTS = 10"

definition TOTAL_ATTEMPTS :: nat where
  "TOTAL_ATTEMPTS = MAX_ATTEMPTS + 2"

text \<open>What the script prints as the cause of a failed start.\<close>

datatype cause = QuotaLimit | OtherCause | Unexpected

record load_test =
  environments :: "desktop_env list"
  success_count :: nat
  failure_count :: nat
  causes :: "cause list"

definition load_test_start :: load_test where
  "load_test_start = \<lparr>environments = [], success_count = 0, failure_count = 0, causes = []\<rparr>"

text \<open>One iteration of the loop over \<^verbatim>\<open>range(TOTAL_ATTEMPTS)\<close>.\<close>

definition attempt :: "'w launcher \<Rightarrow> 'w \<times> load_test \<Rightarrow> 'w \<times> load_test" where
  "attempt launch st =
     (case st of (w, t) \<Rightarrow>
        (case launch w of
           (Inr env, w') \<Rightarrow>
             (w', t\<lparr>environments := environments t @ [env],
                    success_count := success_count t + 1\<rparr>)
         | (Inl (RuntimeError error_msg), w') \<Rightarrow>
             (w', t\<lparr>failure_count := failure_count t + 1,
                    causes := causes t @
                      [if load_test_quota_error error_msg then QuotaLimit else OtherCause]\<rparr>)
         | (Inl (OtherError error_msg), w') \<Rightarrow>
             (w', t\<lparr>failure_count := failure_count t + 1,
                    causes := causes t @ [Unexpected]\<rparr>)))"

primrec attempts :: "'w launcher \<Rightarrow> nat \<Rightarrow> 'w \<times> load_test \<Rightarrow> 'w \<times> load_test" where
  "attempts launch 0 st = st"
| "attempts launch (Suc n) st = attempts launch n (attempt launch st)"

text \<open>The verification at the end of the script.\<close>

definition expected_success :: nat where
  "expected_success = MAX_ATTEMPTS"

definition expected_failure :: nat where
  "expected_failure = 2"

definition load_test_passes :: "load_test \<Rightarrow> bool" where
  "load_test_passes t \<longleftrightarrow>
     success_count t = expected_success \<and> failure_count t = expected_failure"

definition env_load_test :: "'w launcher \<Rightarrow> 'w \<Rightarrow> bool" where
  "env_load_test launch w =
     load_test_passes (snd (attempts launch TOTAL_ATTEMPTS (w, load_test_start)))"

subsection \<open>env\_load\_test\_multi.py\<close>

text \<open>
  The script takes the list of servers from the environment variable; its length is
  \<^verbatim>\<open>URL_COUNT\<close>. The keys of \<^verbatim>\<open>server_usage\<close> are the addresses the environments
  report. The dict is an association list in insertion order.
\<close>

definition PER_URL_QUOTA :: nat where
  "PER_URL_QUOTA = 10"

definition MAX_ATTEMPTS_multi :: "nat \<Rightarrow> nat" where
  "MAX_ATTEMPTS_multi URL_COUNT = PER_URL_QUOTA * URL_COUNT"

definition TOTAL_ATTEMPTS_multi :: "nat \<Rightarrow> nat" where
  "TOTAL_ATTEMPTS_multi URL_COUNT = MAX_ATTEMPTS_multi URL_COUNT + 2"

record multi_test = load_test +
  server_usage :: "(string \<times> nat) list"

definition multi_test_start :: multi_test where
  "multi_test_start =
     \<lparr>environments = [], success_count = 0, failure_count = 0, causes = [],
      server_usage = []\<rparr>"

text \<open>\<^verbatim>\<open>server_usage.get(server_key, 0)\<close>.\<close>

definition usage :: "(string \<times> nat) list \<Rightarrow> string \<Rightarrow> nat" where
  "usage su server_key = (case map_of su server_key of None \<Rightarrow> 0 | Some n \<Rightarrow> n)"

definition attempt_multi :: "'w launcher \<Rightarrow> 'w \<times> multi_test \<Rightarrow> 'w \<times> multi_test" where
  "attempt_multi launch st =
     (case st of (w, t) \<Rightarrow>
        (case launch w of
           (Inr env, w') \<Rightarrow>
             (w', t\<lparr>server_usage :=
                      AList.update (remote_docker_server env)
                        (usage (server_usage t) (remote_docker_server env) + 1) (server_usage t),
                    environments := environments t @ [env],
                    success_count := success_count t + 1\<rparr>)
         | (Inl (RuntimeError error_msg), w') \<Rightarrow>
             (w', t\<lparr>failure_count := failure_count t + 1,
                    causes := causes t @
                      [if load_test_quota_error error_msg then QuotaLimit else OtherCause]\<rparr>)
         | (Inl (OtherError error_msg), w') \<Rightarrow>
             (w', t\<lparr>failure_count := failure_count t + 1,
                    causes := causes t @ [Unexpected]\<rparr>)))"

primrec attempts_multi ::
  "'w launcher \<Rightarrow> nat \<Rightarrow> 'w \<times> multi_test \<Rightarrow> 'w \<times> multi_test" where
  "attempts_multi launch 0 st = st"
| "attempts_multi launch (Suc n) st = attempts_multi launch n (attempt_multi launch st)"

text \<open>The two verifications at the end of the script.\<close>

definition multi_test_passes :: "nat \<Rightarrow> multi_test \<Rightarrow> bool" where
  "multi_test_passes URL_COUNT t \<longleftrightarrow>
     success_count t = MAX_ATTEMPTS_multi URL_COUNT \<and> failure_count t = 2"

definition all_servers_used :: "nat \<Rightarrow> multi_test \<Rightarrow> bool" where
  "all_servers_used URL_COUNT t \<longleftrightarrow> length (server_usage t) = URL_COUNT"

definition balanced_distribution :: "nat \<Rightarrow> multi_test \<Rightarrow> bool" where
  "balanced_distribution URL_COUNT t =
     (if success_count t = MAX_ATTEMPTS_multi URL_COUNT
      then list_all (\<lambda>count. count = PER_URL_QUOTA) (map snd (server_usage t))
      else False)"

definition env_load_test_multi :: "'w launcher \<Rightarrow> nat \<Rightarrow> 'w \<Rightarrow> multi_test" where
  "env_load_test_multi launch URL_COUNT w =
     snd (attempts_multi launch (TOTAL_ATTEMPTS_multi URL_COUNT) (w, multi_test_start))"

subsection \<open>env\_test\_parallel\_test.py\<close>

text \<open>
  The dict \<^verbatim>\<open>results\<close>, as far as the verification reads it: for each of the three
  starts whether it succeeded. The first
  environment is started alone; the other two by two threads. The verification counts
  the successes and the failures and, when the counts are as expected, compares the
  \<^verbatim>\<open>current\<close> the server reports afterwards with 2.
\<close>

record race_results =
  env1 :: bool
  concurrent_env2 :: bool
  concurrent_env3 :: bool

text \<open>
  \<^verbatim>\<open>start_env\<close>, as a function of what the constructor did: the entries
  \<^verbatim>\<open>success\<close> and \<^verbatim>\<open>error\<close> it leaves in \<^verbatim>\<open>results\<close>, and whether it prints
  that the quota limit took effect, which it does only in the handler of
  \<^verbatim>\<open>RuntimeError\<close>.
\<close>

definition start_env :: "launch_error + desktop_env \<Rightarrow> bool \<times> string option \<times> bool" where
  "start_env answer =
     (case answer of
        Inr env \<Rightarrow> (True, None, False)
      | Inl (RuntimeError error_msg) \<Rightarrow>
          (False, Some error_msg, parallel_test_quota_error error_msg)
      | Inl (OtherError error_msg) \<Rightarrow> (False, Some error_msg, False))"

definition race_success_count :: "race_results \<Rightarrow> nat" where
  "race_success_count res =
     length (filter (\<lambda>ok. ok) [env1 res, concurrent_env2 res, concurrent_env3 res])"

definition race_failure_count :: "race_results \<Rightarrow> nat" where
  "race_failure_count res =
     length (filter (\<lambda>ok. \<not> ok) [env1 res, concurrent_env2 res, concurrent_env3 res])"

datatype race_verdict = PassedNoOvercommit | PassedOvercommit | PassedUnknown | NotPassed

definition race_verification :: "race_results \<Rightarrow> quota_info option \<Rightarrow> race_verdict" where
  "race_verification res quota_after_concurrent =
     (if race_success_count res = 2 \<and> race_failure_count res = 1 then
        (case quota_after_concurrent of
           None \<Rightarrow> PassedUnknown
         | Some q \<Rightarrow>
             if current q = 2 then PassedNoOvercommit
             else if current q > 2 then PassedOvercommit
             else PassedUnknown)
      else NotPassed)"

subsection \<open>env\_release\_reallocate\_test.py\<close>

text \<open>
  What the script does to the world: it starts environments, closes them, reads the
  quota of the token on one server (\<^verbatim>\<open>get_tokens_snapshot\<close>, \<open>None\<close> on any failure),
  reads the clock and sleeps. Times are in seconds.
\<close>

record 'w world =
  launch :: "'w launcher"
  close_env :: "desktop_env \<Rightarrow> 'w \<Rightarrow> exn option \<times> 'w"
  get_tokens_snapshot :: "string \<Rightarrow> 'w \<Rightarrow> quota_info option \<times> 'w"
  time_now :: "'w \<Rightarrow> rat"
  sleep :: "rat \<Rightarrow> 'w \<Rightarrow> 'w"







datatype 'a run = NoReturn | Aborted | Report 'a





section \<open>The broker\<close>

text \<open>
  Modelled from the spec: the broker and the client library that talks to it are not
  among the sources. Sections 3, 4 and 7 of the specification describe the quota ledger
  (\<open>TryAdmit\<close>, \<open>Release\<close>, the snapshot), the server selector (\<open>Choose\<close>), the start and
  the stop of an instance, and the message of a quota denial. Provisioning is taken to
  succeed: the claims are about admission and placement.
\<close>

text \<open>
  Modelled from the spec: the counter of the token on one backend server (section 3),
  missing with the ledger: \<open>held\<close> is its \<^verbatim>\<open>current\<close>, \<open>cap\<close> its \<^verbatim>\<open>limit\<close>.
\<close>

record counter =
  held :: nat
  cap :: nat

text \<open>
  Modelled from the spec: the state of the broker, missing from the sources, as far as
  it belongs to one token: the counters of different tokens are independent (sections 5
  and 9), and every script uses one token. The ledger holds the counters of the token,
  one per backend server; the selector owns the rotation cursor; the lifecycle manager
  maps an instance id to its server.
\<close>

record broker =
  ledger :: "counter list"
  cursor :: nat
  instances :: "(nat \<times> nat) list"
  next_id :: nat

text \<open>
  Modelled from the spec: \<open>TryAdmit\<close> (section 4.1), the check and the increment in one
  atomic step: granted iff \<open>current < limit\<close>.
\<close>

definition TryAdmit :: "nat \<Rightarrow> broker \<Rightarrow> bool \<times> broker" where
  "TryAdmit sid b =
     (let cs = ledger b in
      if sid < length cs \<and> held (cs ! sid) < cap (cs ! sid)
      then (True, b\<lparr>ledger := cs[sid := (cs ! sid)\<lparr>held := held (cs ! sid) + 1\<rparr>]\<rparr>)
      else (False, b))"


text \<open>
  Modelled from the spec: the per-server snapshot of a token (section 4.1, and
  \<^verbatim>\<open>GET /tokens\<close> of section 4.4).
\<close>

definition Snapshot :: "nat \<Rightarrow> broker \<Rightarrow> quota_info option" where
  "Snapshot sid b =
     (let cs = ledger b in
      if sid < length cs
      then Some \<lparr>current = int (held (cs ! sid)), limit = int (cap (cs ! sid))\<rparr>
      else None)"

text \<open>
  Modelled from the spec: \<open>Choose\<close> (section 4.2). The candidates are the servers not at
  capacity, in the order of the rotation that starts at the cursor; the server chosen is
  the first candidate, in that order, with the most headroom \<open>limit - current\<close>.
\<close>

definition headroom :: "counter \<Rightarrow> nat" where
  "headroom c = cap c - held c"

definition rotation :: "nat \<Rightarrow> nat \<Rightarrow> nat list" where
  "rotation n k = map (\<lambda>i. (k + i) mod n) [0..<n]"

definition candidates :: "counter list \<Rightarrow> nat \<Rightarrow> nat list" where
  "candidates cs k = filter (\<lambda>i. held (cs ! i) < cap (cs ! i)) (rotation (length cs) k)"

fun most_headroom :: "counter list \<Rightarrow> nat \<Rightarrow> nat list \<Rightarrow> nat" where
  "most_headroom cs best [] = best"
| "most_headroom cs best (j # js) =
     most_headroom cs (if headroom (cs ! j) > headroom (cs ! best) then j else best) js"

definition Choose :: "counter list \<Rightarrow> nat \<Rightarrow> nat option" where
  "Choose cs k = (case candidates cs k of [] \<Rightarrow> None | i # js \<Rightarrow> Some (most_headroom cs i js))"

text \<open>
  Modelled from the spec: the answer to a start request (sections 4.4 and 7): the
  instance id and the server, or the quota denial.
\<close>

datatype start_result = Granted nat nat | QuotaExceeded

text \<open>
  Modelled from the spec: admission on the server chosen, then the start of the
  instance (sections 2 and 4.3). The slot is taken before the instance exists.
\<close>

definition admit :: "nat \<Rightarrow> broker \<Rightarrow> start_result \<times> broker" where
  "admit sid b =
     (case TryAdmit sid b of
        (True, b') \<Rightarrow>
          (Granted (next_id b') sid,
           b'\<lparr>cursor := (sid + 1) mod length (ledger b'),
              instances := instances b' @ [(next_id b', sid)],
              next_id := next_id b' + 1\<rparr>)
      | (False, b') \<Rightarrow> (QuotaExceeded, b'))"

text \<open>
  Modelled from the spec: a start request handled alone (\<^verbatim>\<open>POST /start_emulator\<close>):
  placement, then admission. A request with no candidate server fails at once.
\<close>

definition Start :: "broker \<Rightarrow> start_result \<times> broker" where
  "Start b =
     (case Choose (ledger b) (cursor b) of
        None \<Rightarrow> (QuotaExceeded, b)
      | Some sid \<Rightarrow> admit sid b)"


text \<open>
  Modelled from the spec: requests handled concurrently (section 5). Only the admission
  is atomic; between the placement and the admission of one request the steps of another
  may run. A request is first selecting, then admitting on the server it chose, then
  finished with its answer.
\<close>

datatype phase = Selecting | Admitting nat | Finished start_result

definition start_step :: "phase \<Rightarrow> broker \<Rightarrow> phase \<times> broker" where
  "start_step p b =
     (case p of
        Selecting \<Rightarrow>
          (case Choose (ledger b) (cursor b) of
             None \<Rightarrow> (Finished QuotaExceeded, b)
           | Some sid \<Rightarrow> (Admitting sid, b))
      | Admitting sid \<Rightarrow> (case admit sid b of (r, b') \<Rightarrow> (Finished r, b'))
      | Finished r \<Rightarrow> (Finished r, b))"

text \<open>
  Modelled from the spec: two requests of the token handled concurrently, and a
  schedule: each entry of the schedule lets the first (\<open>True\<close>) or the second
  (\<open>False\<close>) request take its next step.
\<close>

definition race_step :: "bool \<Rightarrow> phase \<times> phase \<times> broker \<Rightarrow> phase \<times> phase \<times> broker" where
  "race_step first st =
     (case st of (p2, p3, b) \<Rightarrow>
        if first then (case start_step p2 b of (p2', b') \<Rightarrow> (p2', p3, b'))
        else (case start_step p3 b of (p3', b') \<Rightarrow> (p2, p3', b')))"

primrec race :: "bool list \<Rightarrow> phase \<times> phase \<times> broker \<Rightarrow> phase \<times> phase \<times> broker" where
  "race [] st = st"
| "race (first # schedule) st = race schedule (race_step first st)"

text \<open>
  Modelled from the spec: the message of a quota denial contains the phrase
  \<^verbatim>\<open>quota exceeded\<close> (section 4.4); nothing else about it is fixed.
\<close>

definition quota_denial_message :: string where
  "quota_denial_message = ''quota exceeded''"

text \<open>
  Modelled from the spec: the client library, missing from the sources, turns the
  answer of the broker into an environment or raises \<^verbatim>\<open>RuntimeError\<close> with the message
  of the denial. \<open>keys\<close> are the addresses of the backend servers, in the order of the
  ledger.
\<close>

definition client_answer :: "string list \<Rightarrow> start_result \<Rightarrow> launch_error + desktop_env" where
  "client_answer keys r =
     (case r of
        Granted eid sid \<Rightarrow> Inr \<lparr>emulator_id = eid, remote_docker_server = keys ! sid\<rparr>
      | QuotaExceeded \<Rightarrow> Inl (RuntimeError quota_denial_message))"

text \<open>
  Modelled from the spec: the constructor \<^verbatim>\<open>DesktopEnv\<close> of the client library asks the
  broker for an instance.
\<close>

definition DesktopEnv :: "string list \<Rightarrow> broker launcher" where
  "DesktopEnv keys b = (case Start b of (r, b') \<Rightarrow> (client_answer keys r, b'))"



text \<open>
  Modelled from the spec: a broker where the token holds nothing yet, with the given
  limits per server.
\<close>

definition fresh_broker :: "nat list \<Rightarrow> broker" where
  "fresh_broker limits =
     \<lparr>ledger = map (\<lambda>l. \<lparr>held = 0, cap = l\<rparr>) limits,
      cursor = 0, instances = [], next_id = 0\<rparr>"

text \<open>The servers of the scripts, as the environments report them.\<close>

definition server_keys :: "string list" where
  "server_keys = [''10.1.110.48:50003'', ''10.1.110.43:50003'']"

section \<open>Reading a race\<close>

text \<open>
  Whether an answer grants; how many instances a request has been granted so far; how
  far a request has come; and the invariant of two requests racing for the last slot of
  a server with limit 2: the count held is one plus the grants, it never passes 2, a
  request only ever admits on server 0, and a request was denied only at a full count.
\<close>

definition granted :: "start_result \<Rightarrow> bool" where
  "granted r = (case r of Granted eid sid \<Rightarrow> True | QuotaExceeded \<Rightarrow> False)"

definition wins :: "phase \<Rightarrow> nat" where
  "wins p = (case p of Finished (Granted eid sid) \<Rightarrow> 1 | _ \<Rightarrow> 0)"

definition rank :: "phase \<Rightarrow> nat" where
  "rank p = (case p of Selecting \<Rightarrow> 0 | Admitting sid \<Rightarrow> 1 | Finished r \<Rightarrow> 2)"

definition phase_ok :: "nat \<Rightarrow> phase \<Rightarrow> bool" where
  "phase_ok h p =
     (case p of
        Selecting \<Rightarrow> True
      | Admitting sid \<Rightarrow> sid = 0
      | Finished (Granted eid sid) \<Rightarrow> True
      | Finished QuotaExceeded \<Rightarrow> h = 2)"

definition race_inv :: "phase \<times> phase \<times> broker \<Rightarrow> bool" where
  "race_inv st =
     (case st of (p2, p3, b) \<Rightarrow>
        \<exists>h. ledger b = [\<lparr>held = h, cap = 2\<rparr>] \<and> h = 1 + wins p2 + wins p3 \<and> h \<le> 2
           \<and> phase_ok h p2 \<and> phase_ok h p3)"

section \<open>Reading the usage table\<close>

text \<open>
  The invariant of the loop of env\_load\_test\_multi.py when every environment runs on
  one of the servers \<open>keys\<close>: the successes are the sum of the usage of the servers, the
  table has entries for these servers only, and one entry per server.
\<close>

definition usage_inv :: "string list \<Rightarrow> multi_test \<Rightarrow> bool" where
  "usage_inv keys t \<longleftrightarrow>
     success_count t = sum_list (map (usage (server_usage t)) keys)
     \<and> fst ` set (server_usage t) \<subseteq> set keys
     \<and> distinct (map fst (server_usage t))"

section \<open>The release test against the broker\<close>





chapter \<open>Properties\<close>

section \<open>The age of a container in floating point\<close>

lemma binary_exponent_ge1:
  assumes "1 \<le> x"
  shows "2 powi binary_exponent x \<le> x \<and> x < 2 powi (binary_exponent x + 1)"
proof -
  let ?n = "\<lfloor>x\<rfloor>"
  have n: "1 \<le> ?n" using assms by simp
  then have pos: "0 < ?n" by simp
  from bitlen_bounds [OF pos]
  have lo: "2 ^ nat (bitlen ?n - 1) \<le> ?n" and hi: "?n < 2 ^ nat (bitlen ?n)"
    by simp_all
  have b1: "1 \<le> bitlen ?n"
    using pos by (simp add: bitlen_alt_def)
  have e: "binary_exponent x = bitlen ?n - 1"
    using assms by (simp add: binary_exponent_def)
  have "(of_int (2 ^ nat (bitlen ?n - 1)) :: rat) \<le> of_int ?n"
    using lo by (simp only: of_int_le_iff)
  also have "\<dots> \<le> x" by simp
  finally have 1: "2 powi (bitlen ?n - 1) \<le> x"
    using b1 by (simp add: power_int_def)
  have "?n + 1 \<le> 2 ^ nat (bitlen ?n)"
    using hi by simp
  then have "(of_int (?n + 1) :: rat) \<le> of_int (2 ^ nat (bitlen ?n))"
    by (simp only: of_int_le_iff)
  moreover have "x < of_int (?n + 1)"
    using floor_correct [of x] by blast
  ultimately have "x < of_int (2 ^ nat (bitlen ?n))"
    by linarith
  then have 2: "x < 2 powi (bitlen ?n)"
    using b1 by (simp add: power_int_def)
  from 1 2 e show ?thesis by simp
qed

lemma binary_exponent_lt1:
  assumes "0 < x" and "x < 1"
  shows "2 powi binary_exponent x \<le> x \<and> x < 2 powi (binary_exponent x + 1)"
proof -
  let ?y = "1 / x"
  let ?m = "\<lceil>?y\<rceil> - 1"
  have y1: "1 < ?y" using assms by simp
  then have "1 < \<lceil>?y\<rceil>" by (simp add: less_ceiling_iff)
  then have pos: "0 < ?m" by simp
  from bitlen_bounds [OF pos]
  have lo: "2 ^ nat (bitlen ?m - 1) \<le> ?m" and hi: "?m < 2 ^ nat (bitlen ?m)"
    by simp_all
  have b1: "1 \<le> bitlen ?m"
    using pos by (simp add: bitlen_alt_def)
  have e: "binary_exponent x = - bitlen ?m"
    using assms by (simp add: binary_exponent_def)
  have my: "(of_int ?m :: rat) < ?y"
    by (metis ceiling_correct of_int_diff of_int_1)
  have ym: "?y \<le> of_int (?m + 1)"
    using le_of_int_ceiling [of ?y] by simp
  have "(of_int (2 ^ nat (bitlen ?m - 1)) :: rat) \<le> of_int ?m"
    using lo by (simp only: of_int_le_iff)
  moreover have "(of_int (2 ^ nat (bitlen ?m - 1)) :: rat) = 2 ^ nat (bitlen ?m - 1)"
    by simp
  ultimately have A: "(2::rat) ^ nat (bitlen ?m - 1) < ?y"
    using my by linarith
  have "?m + 1 \<le> 2 ^ nat (bitlen ?m)"
    using hi by simp
  then have "(of_int (?m + 1) :: rat) \<le> of_int (2 ^ nat (bitlen ?m))"
    by (simp only: of_int_le_iff)
  moreover have "(of_int (2 ^ nat (bitlen ?m)) :: rat) = 2 ^ nat (bitlen ?m)"
    by simp
  ultimately have B: "?y \<le> (2::rat) ^ nat (bitlen ?m)"
    using ym by linarith
  have 1: "1 / (2::rat) ^ nat (bitlen ?m) \<le> x"
  proof -
    have "1 \<le> x * (2::rat) ^ nat (bitlen ?m)"
      using B assms(1) by (simp add: field_simps)
    then show ?thesis
      by (simp add: field_simps)
  qed
  have 2: "x < 1 / (2::rat) ^ nat (bitlen ?m - 1)"
  proof -
    have "x * (2::rat) ^ nat (bitlen ?m - 1) < 1"
      using A assms(1) by (simp add: field_simps)
    then show ?thesis
      by (simp add: field_simps)
  qed
  have p1: "(2::rat) powi (- bitlen ?m) = 1 / 2 ^ nat (bitlen ?m)"
    using b1 by (simp add: power_int_def field_simps)
  have p2: "(2::rat) powi (- bitlen ?m + 1) = 1 / 2 ^ nat (bitlen ?m - 1)"
  proof (cases "bitlen ?m = 1")
    case True
    then show ?thesis by simp
  next
    case False
    with b1 have "\<not> 0 \<le> - bitlen ?m + 1" by simp
    moreover have "nat (- (- bitlen ?m + 1)) = nat (bitlen ?m - 1)" by simp
    ultimately show ?thesis
      by (simp add: power_int_def field_simps)
  qed
  from 1 2 e p1 p2 show ?thesis by simp
qed

lemma binary_exponent_bounds:
  "0 < x \<Longrightarrow> 2 powi binary_exponent x \<le> x \<and> x < 2 powi (binary_exponent x + 1)"
  using binary_exponent_ge1 [of x] binary_exponent_lt1 [of x] by (cases "1 \<le> x") simp_all

lemma round_half_even_cases:
  "round_half_even y = \<lfloor>y\<rfloor> \<and> y - of_int \<lfloor>y\<rfloor> \<le> 1 / 2
   \<or> round_half_even y = \<lfloor>y\<rfloor> + 1 \<and> 1 / 2 \<le> y - of_int \<lfloor>y\<rfloor>"
  by (auto simp: round_half_even_def Let_def)

lemma round_half_even_upper: "of_int (round_half_even y) \<le> y + 1 / 2"
proof -
  have f: "of_int \<lfloor>y\<rfloor> \<le> y"
    using floor_correct [of y] by blast
  from round_half_even_cases [of y] show ?thesis
  proof (elim disjE conjE)
    assume "round_half_even y = \<lfloor>y\<rfloor>"
    then have "(of_int (round_half_even y) :: rat) = of_int \<lfloor>y\<rfloor>"
      by simp
    with f show ?thesis by linarith
  next
    assume "round_half_even y = \<lfloor>y\<rfloor> + 1" and h: "1 / 2 \<le> y - of_int \<lfloor>y\<rfloor>"
    then have "(of_int (round_half_even y) :: rat) = of_int \<lfloor>y\<rfloor> + 1"
      by simp
    with h show ?thesis by linarith
  qed
qed

lemma round_half_even_lower: "y - 1 / 2 \<le> of_int (round_half_even y)"
proof -
  have f: "y < of_int \<lfloor>y\<rfloor> + 1"
    using floor_correct [of y] by simp
  from round_half_even_cases [of y] show ?thesis
  proof (elim disjE conjE)
    assume "round_half_even y = \<lfloor>y\<rfloor>" and h: "y - of_int \<lfloor>y\<rfloor> \<le> 1 / 2"
    then have "(of_int (round_half_even y) :: rat) = of_int \<lfloor>y\<rfloor>"
      by simp
    with h show ?thesis by linarith
  next
    assume "round_half_even y = \<lfloor>y\<rfloor> + 1"
    then have "(of_int (round_half_even y) :: rat) = of_int \<lfloor>y\<rfloor> + 1"
      by simp
    with f show ?thesis by linarith
  qed
qed

lemma round_half_even_ge: "of_int n \<le> y \<Longrightarrow> n \<le> round_half_even y"
proof -
  assume "of_int n \<le> y"
  then have "n \<le> \<lfloor>y\<rfloor>" by (simp add: le_floor_iff)
  then show ?thesis
    by (simp add: round_half_even_def Let_def)
qed

lemma double_round_pos:
  "0 < x \<Longrightarrow>
   double_round x
     = of_int (round_half_even (x / 2 powi (binary_exponent x - 52)))
         * 2 powi (binary_exponent x - 52)"
  by (simp add: double_round_def Let_def)

lemma double_round_minus: "double_round (- x) = - double_round x"
  by (simp add: double_round_def Let_def)

lemma double_round_error:
  assumes "0 < x"
  shows "\<bar>double_round x - x\<bar> \<le> x / 2 ^ 53"
proof -
  define p :: rat where "p = 2 powi (binary_exponent x - 52)"
  define m where "m = round_half_even (x / p)"
  have p: "0 < p" by (simp add: p_def)
  have dr: "double_round x = of_int m * p"
    using assms by (simp add: double_round_pos m_def p_def)
  have "\<bar>of_int m - x / p\<bar> \<le> 1 / 2"
    using round_half_even_upper [of "x / p"] round_half_even_lower [of "x / p"]
    unfolding m_def by linarith
  then have "\<bar>of_int m - x / p\<bar> * p \<le> 1 / 2 * p"
    using p by (simp add: mult_right_mono)
  moreover have "\<bar>of_int m - x / p\<bar> * p = \<bar>of_int m * p - x\<bar>"
  proof -
    have "\<bar>of_int m - x / p\<bar> * p = \<bar>(of_int m - x / p) * p\<bar>"
      using p by (simp add: abs_mult)
    also have "(of_int m - x / p) * p = of_int m * p - x"
      using p by (simp add: field_simps)
    finally show ?thesis .
  qed
  ultimately have e1: "\<bar>double_round x - x\<bar> \<le> p / 2"
    by (simp add: dr)
  have "p = 2 powi binary_exponent x / 2 ^ 52"
    by (simp add: p_def power_int_diff)
  moreover have "2 powi binary_exponent x \<le> x"
    using binary_exponent_bounds [OF assms] by simp
  ultimately have "p / 2 \<le> x / 2 ^ 53"
    by simp
  with e1 show ?thesis by linarith
qed

lemma double_round_ge_int:
  assumes "0 < x" and "x < 2 ^ 53" and "of_int k \<le> x"
  shows "of_int k \<le> double_round x"
proof -
  define e where "e = binary_exponent x - 52"
  define m where "m = round_half_even (x / 2 powi e)"
  have dr: "double_round x = of_int m * 2 powi e"
    using assms(1) by (simp add: double_round_pos m_def e_def)
  have "(2::rat) powi binary_exponent x < 2 powi 53"
    using binary_exponent_bounds [OF assms(1)] assms(2) by simp
  then have "binary_exponent x < 53"
    by (rule power_int_le_imp_less_exp [rotated]) simp_all
  then have e: "e \<le> 0" by (simp add: e_def)
  define N :: int where "N = 2 ^ nat (- e)"
  have inv: "(2::rat) powi e = 1 / of_int N"
  proof (cases "e = 0")
    case True
    then show ?thesis by (simp add: N_def)
  next
    case False
    with e have "\<not> 0 \<le> e" by simp
    then show ?thesis
      by (simp add: power_int_def N_def field_simps)
  qed
  have N: "(0::rat) < of_int N" by (simp add: N_def)
  have "x / 2 powi e = x * of_int N"
    by (simp add: inv)
  moreover have "of_int k * of_int N \<le> x * (of_int N :: rat)"
    using assms(3) N by (simp add: mult_right_mono)
  ultimately have "of_int (k * N) \<le> x / 2 powi e"
    by simp
  then have "k * N \<le> m"
    unfolding m_def by (rule round_half_even_ge)
  then have "(of_int (k * N) :: rat) \<le> of_int m"
    by (simp only: of_int_le_iff)
  then have "(of_int k :: rat) * of_int N \<le> of_int m"
    by simp
  then have "(of_int k :: rat) \<le> of_int m / of_int N"
    by (simp only: pos_le_divide_eq [OF N])
  then show ?thesis
    by (simp add: dr inv)
qed

lemma py_int_minus: "py_int (- x) = - py_int x"
  by (auto simp: py_int_def ceiling_def)

lemma float_age_minus:
  "py_int (double_round (total_seconds (- d) / 60))
     = - py_int (double_round (total_seconds d / 60))"
  by (simp add: total_seconds_def double_round_minus py_int_minus)

lemma float_age_exact:
  assumes "0 \<le> d" and "d < 60000000 * 2 ^ 26"
  shows "py_int (double_round (total_seconds d / 60)) = d div 60000000"
proof (cases "d = 0")
  case True
  then show ?thesis
    by (simp add: total_seconds_def double_round_def py_int_def)
next
  case False
  with assms have dpos: "0 < d" by simp
  define k where "k = d div 60000000"
  define x :: rat where "x = of_int d / 1000000"
  define x1 where "x1 = double_round x"
  define x2 where "x2 = double_round (x1 / 60)"
  define u :: rat where "u = 1 / 2 ^ 53"
  have k0: "0 \<le> k" using assms by (simp add: k_def)
  have kd: "60000000 * k \<le> d" and dk: "d \<le> 60000000 * k + 59999999"
    by (simp_all add: k_def)
  have kK: "k + 1 \<le> 2 ^ 26"
    using assms(2) by (simp add: k_def)
  have xpos: "0 < x" using dpos by (simp add: x_def)
  have xlo: "of_int (60 * k) \<le> x"
  proof -
    have "(of_int (60000000 * k) :: rat) \<le> of_int d"
      using kd by (simp only: of_int_le_iff)
    then show ?thesis by (simp add: x_def)
  qed
  have xhi: "x \<le> 60 * (of_int k + 1) - 1 / 1000000"
  proof -
    have "(of_int d :: rat) \<le> of_int (60000000 * k + 59999999)"
      using dk by (simp only: of_int_le_iff)
    then show ?thesis by (simp add: x_def)
  qed
  have kr: "(of_int k :: rat) + 1 \<le> 2 ^ 26"
  proof -
    have "(of_int (k + 1) :: rat) \<le> of_int (2 ^ 26)"
      using kK by (simp only: of_int_le_iff)
    then show ?thesis by simp
  qed
  have x53: "x < 2 ^ 53"
    using xhi kr by simp
  have e1: "\<bar>x1 - x\<bar> \<le> x * u"
    using double_round_error [OF xpos] by (simp add: x1_def u_def)
  have x1lo: "of_int (60 * k) \<le> x1"
    unfolding x1_def using xpos x53 xlo by (rule double_round_ge_int)
  have x1pos: "0 < x1"
  proof -
    have "x - x * u \<le> x1" using e1 by linarith
    then have "x * (1 - u) \<le> x1" by (simp add: algebra_simps)
    moreover have "0 < x * (1 - u)" using xpos by (simp add: u_def)
    ultimately show ?thesis by linarith
  qed
  have "x1 \<le> x + x * u"
    using e1 by linarith
  also have "\<dots> = x * (1 + u)"
    by (simp add: algebra_simps)
  finally have x1hi: "x1 \<le> x * (1 + u)" .
  have ypos: "0 < x1 / 60" using x1pos by simp
  have y53: "x1 / 60 < 2 ^ 53"
  proof -
    have "x * (1 + u) \<le> x * 2" using xpos by (simp add: u_def)
    with x1hi xhi kr show ?thesis by simp
  qed
  have ylo: "of_int k \<le> x1 / 60"
    using x1lo by simp
  have x2lo: "of_int k \<le> x2"
    unfolding x2_def using ypos y53 ylo by (rule double_round_ge_int)
  have e2: "\<bar>x2 - x1 / 60\<bar> \<le> x1 / 60 * u"
    using double_round_error [OF ypos] by (simp add: x2_def u_def)
  have "x2 \<le> x1 / 60 + x1 / 60 * u"
    using e2 by linarith
  also have "\<dots> = x1 / 60 * (1 + u)"
    by (simp add: algebra_simps)
  finally have x2hi: "x2 \<le> x1 / 60 * (1 + u)" .
  have "x1 / 60 \<le> x * (1 + u) / 60"
    using x1hi by (rule divide_right_mono) simp
  then have "x1 / 60 * (1 + u) \<le> x * (1 + u) / 60 * (1 + u)"
    by (rule mult_right_mono) (simp add: u_def)
  also have "\<dots> = x / 60 * ((1 + u) * (1 + u))"
    by simp
  finally have x2sq: "x2 \<le> x / 60 * ((1 + u) * (1 + u))"
    using x2hi by linarith
  define c :: rat where "c = 17 / 8 * u"
  define dl :: rat where "dl = 1 / 60000000"
  have c0: "0 \<le> c" by (simp add: c_def u_def)
  have sq: "(1 + u) * (1 + u) \<le> 1 + c"
    by (simp add: u_def c_def)
  have "x / 60 * ((1 + u) * (1 + u)) \<le> x / 60 * (1 + c)"
    using sq by (rule mult_left_mono) (use xpos in simp)
  with x2sq have x2u: "x2 \<le> x / 60 * (1 + c)"
    by linarith
  have "x / 60 \<le> of_int k + 1 - dl"
    using xhi by (simp add: dl_def)
  then have "x / 60 * (1 + c) \<le> (of_int k + 1 - dl) * (1 + c)"
    by (rule mult_right_mono) (use c0 in simp)
  with x2u have "x2 \<le> (of_int k + 1 - dl) * (1 + c)"
    by linarith
  also have "\<dots> = of_int k + 1 + ((of_int k + 1) * c - dl * (1 + c))"
    by (simp add: algebra_simps)
  also have "\<dots> < of_int k + 1"
  proof -
    have "(of_int k + 1) * c \<le> 2 ^ 26 * c"
      using kr c0 by (rule mult_right_mono)
    moreover have "2 ^ 26 * c < dl * (1 + c)"
      by (simp add: u_def c_def dl_def)
    ultimately show ?thesis by linarith
  qed
  finally have x2up: "x2 < of_int k + 1" .
  have "(0::rat) \<le> of_int k" using k0 by simp
  with x2lo have "0 \<le> x2" by linarith
  then have "py_int x2 = \<lfloor>x2\<rfloor>" by (simp add: py_int_def)
  also have "\<lfloor>x2\<rfloor> = k"
    using x2lo x2up by (simp add: floor_unique)
  finally show ?thesis
    by (simp add: total_seconds_def x2_def x1_def x_def k_def)
qed

lemma sdiv_minutes_nonneg: "0 \<le> k \<Longrightarrow> k sdiv 60000000 = k div (60000000::int)"
  by (cases "k = 0") (simp_all add: signed_divide_int_def)

lemma sdiv_minutes_neg: "k < 0 \<Longrightarrow> k sdiv 60000000 = - ((- k) div (60000000::int))"
  by (simp add: signed_divide_int_def)

lemma float_age_truncated:
  assumes "\<bar>d\<bar> < 60000000 * 2 ^ 26"
  shows "py_int (double_round (total_seconds d / 60)) = d sdiv 60000000"
proof (cases "0 \<le> d")
  case True
  with assms show ?thesis
    by (simp add: float_age_exact sdiv_minutes_nonneg)
next
  case False
  then have neg: "d < 0" by simp
  with assms have "0 \<le> - d" and "- d < 60000000 * 2 ^ 26"
    by simp_all
  then have "py_int (double_round (total_seconds (- d) / 60)) = (- d) div 60000000"
    by (rule float_age_exact)
  then have "py_int (double_round (total_seconds d / 60)) = - ((- d) div 60000000)"
    using float_age_minus [of d] by simp
  with neg show ?thesis
    by (simp add: sdiv_minutes_neg)
qed

section \<open>The loop of the janitor\<close>

lemma process_container_outcomes:
  "outcomes (process_container now m dr c s) = outcomes s @ [container_outcome now m dr c]"
  by (simp add: process_container_def container_outcome_def no_sweep_def
      split: option.splits)

lemma process_container_removed_count:
  "removed_count (process_container now m dr c s) =
     removed_count s + (if counted_removed (container_outcome now m dr c) then 1 else 0)"
  by (simp add: process_container_def container_outcome_def no_sweep_def counted_removed_def
      split: option.splits)

lemma process_container_failed_count:
  "failed_count (process_container now m dr c s) =
     failed_count s + (if counted_failed (container_outcome now m dr c) then 1 else 0)"
  by (simp add: process_container_def container_outcome_def no_sweep_def counted_failed_def
      split: option.splits)

lemma loop_outcomes_Nil: "loop_outcomes clock i m dr [] = []"
  by (simp add: loop_outcomes_def)

lemma loop_outcomes_Cons:
  "loop_outcomes clock i m dr (c # cs) =
     container_outcome (clock i) m dr c # loop_outcomes clock (Suc i) m dr cs"
proof -
  have "[0..<length (c # cs)] = 0 # map Suc [0..<length cs]"
    by (simp add: upt_conv_Cons map_Suc_upt del: upt_Suc)
  then show ?thesis
    by (simp add: loop_outcomes_def comp_def del: upt_Suc)
qed

lemma process_containers_outcomes:
  "outcomes (process_containers clock i m dr cs s) = outcomes s @ loop_outcomes clock i m dr cs"
  by (induction cs arbitrary: i s)
     (simp_all add: loop_outcomes_Nil loop_outcomes_Cons process_container_outcomes)

lemma process_containers_removed_count:
  "removed_count (process_containers clock i m dr cs s) =
     removed_count s + length (filter counted_removed (loop_outcomes clock i m dr cs))"
  by (induction cs arbitrary: i s)
     (simp_all add: loop_outcomes_Nil loop_outcomes_Cons process_container_removed_count)

lemma process_containers_failed_count:
  "failed_count (process_containers clock i m dr cs s) =
     failed_count s + length (filter counted_failed (loop_outcomes clock i m dr cs))"
  by (induction cs arbitrary: i s)
     (simp_all add: loop_outcomes_Nil loop_outcomes_Cons process_container_failed_count)

lemma container_outcome_cases:
  "container_outcome now m dr c =
     (case get_container_age_minutes now c of
        None \<Rightarrow> AgeFailed
      | Some a \<Rightarrow>
          if a \<ge> m then (if dr then WouldRemove
                          else (case remove_raises c of None \<Rightarrow> Removed | Some e \<Rightarrow> RemoveFailed))
          else TooYoung)"
  by (simp add: process_container_def container_outcome_def no_sweep_def
      split: option.splits)

lemma selected_dry_real:
  "selected (container_outcome now m True c) = selected (container_outcome now m False c)"
  by (simp add: container_outcome_cases selected_def attempted_def split: option.splits)


lemma length_loop_outcomes: "length (loop_outcomes clock i m dr cs) = length cs"
  by (simp add: loop_outcomes_def)

lemma nth_loop_outcomes:
  "k < length cs \<Longrightarrow>
     loop_outcomes clock i m dr cs ! k = container_outcome (clock (i + k)) m dr (cs ! k)"
  by (simp add: loop_outcomes_def)

lemma remove_old_containers_listed:
  assumes "from_env d = None" and "containers_list d = Inr everything"
  shows "remove_old_containers d image_name m dr =
           process_containers (utc_now d) 0 m dr (matching_containers image_name everything) no_sweep"
  using assms by (simp add: remove_old_containers_def Let_def)

lemma outcomes_listed:
  assumes "from_env d = None" and "containers_list d = Inr everything"
  shows "outcomes (remove_old_containers d image_name m dr) =
           loop_outcomes (utc_now d) 0 m dr (matching_containers image_name everything)"
  by (simp add: remove_old_containers_listed [OF assms] process_containers_outcomes no_sweep_def)

lemma removed_count_eq:
  "removed_count (remove_old_containers d image_name m dr) =
     length (filter counted_removed (outcomes (remove_old_containers d image_name m dr)))"
  by (simp add: remove_old_containers_def Let_def no_sweep_def process_containers_outcomes
      process_containers_removed_count split: option.splits sum.splits)

lemma failed_count_eq:
  "failed_count (remove_old_containers d image_name m dr) =
     length (filter counted_failed (outcomes (remove_old_containers d image_name m dr)))"
  by (simp add: remove_old_containers_def Let_def no_sweep_def process_containers_outcomes
      process_containers_failed_count split: option.splits sum.splits)

lemma map_selected_dry_real:
  "map selected (loop_outcomes clock i m True cs) = map selected (loop_outcomes clock i m False cs)"
  by (simp add: loop_outcomes_def selected_dry_real)

lemma dry_run_attempts_nothing:
  "\<not> list_ex attempted (loop_outcomes clock i m True cs)"
  by (simp add: loop_outcomes_def list_ex_iff container_outcome_cases attempted_def
      split: option.splits)

lemma counted_removed_dry:
  "filter counted_removed (loop_outcomes clock i m True cs) =
     filter selected (loop_outcomes clock i m True cs)"
proof (rule filter_cong [OF refl])
  fix x assume "x \<in> set (loop_outcomes clock i m True cs)"
  then obtain k where "x = container_outcome (clock (i + k)) m True (cs ! k)"
    by (auto simp: loop_outcomes_def)
  then show "counted_removed x = selected x"
    by (simp add: container_outcome_cases counted_removed_def selected_def attempted_def
        split: option.splits)
qed

text \<open>
  Claim C2, as amended. Among the containers of the image, one whose age could be
  computed is handed to \<^verbatim>\<open>container.remove\<close> by a real run iff its age is at least
  \<open>min_age_minutes\<close>, and it is removed iff moreover that call returns; a dry run reports
  it as would-remove under the same condition. Every matching container gets one
  outcome; the dry run selects the same positions as the real run, counts exactly them,
  and attempts no removal.
\<close>

theorem janitor_age_selection:
  assumes "from_env d = None" and "containers_list d = Inr everything"
    and "i < length (matching_containers image_name everything)"
    and "get_container_age_minutes (utc_now d i) (matching_containers image_name everything ! i)
           = Some age_minutes"
  shows
    "(attempted (outcomes (remove_old_containers d image_name m False) ! i) \<longleftrightarrow> age_minutes \<ge> m)
     \<and> (outcomes (remove_old_containers d image_name m False) ! i = Removed \<longleftrightarrow>
          age_minutes \<ge> m \<and> remove_raises (matching_containers image_name everything ! i) = None)
     \<and> (outcomes (remove_old_containers d image_name m True) ! i = WouldRemove \<longleftrightarrow> age_minutes \<ge> m)
     \<and> length (outcomes (remove_old_containers d image_name m False))
          = length (matching_containers image_name everything)
     \<and> map selected (outcomes (remove_old_containers d image_name m True))
          = map selected (outcomes (remove_old_containers d image_name m False))
     \<and> removed_count (remove_old_containers d image_name m True)
          = length (filter selected (outcomes (remove_old_containers d image_name m False)))
     \<and> \<not> list_ex attempted (outcomes (remove_old_containers d image_name m True))"
proof -
  let ?ms = "matching_containers image_name everything"
  have out: "outcomes (remove_old_containers d image_name m dr) = loop_outcomes (utc_now d) 0 m dr ?ms"
    for dr
    by (rule outcomes_listed [OF assms(1,2)])
  have at: "loop_outcomes (utc_now d) 0 m dr ?ms ! i = container_outcome (utc_now d i) m dr (?ms ! i)"
    for dr
    using nth_loop_outcomes [OF assms(3), of "utc_now d" 0 m dr] by simp
  have c1: "attempted (outcomes (remove_old_containers d image_name m False) ! i) \<longleftrightarrow> age_minutes \<ge> m"
    by (simp add: out at container_outcome_cases assms(4) attempted_def split: option.splits)
  have c2: "outcomes (remove_old_containers d image_name m False) ! i = Removed \<longleftrightarrow>
          age_minutes \<ge> m \<and> remove_raises (?ms ! i) = None"
    by (simp add: out at container_outcome_cases assms(4) split: option.splits)
  have c3: "outcomes (remove_old_containers d image_name m True) ! i = WouldRemove \<longleftrightarrow> age_minutes \<ge> m"
    by (simp add: out at container_outcome_cases assms(4))
  have c4: "length (outcomes (remove_old_containers d image_name m False)) = length ?ms"
    by (simp add: out length_loop_outcomes)
  have c5: "map selected (outcomes (remove_old_containers d image_name m True))
          = map selected (outcomes (remove_old_containers d image_name m False))"
    by (simp add: out map_selected_dry_real)
  have "length (filter selected (loop_outcomes (utc_now d) 0 m True ?ms))
      = length (filter selected (loop_outcomes (utc_now d) 0 m False ?ms))"
    by (simp add: loop_outcomes_def filter_map comp_def selected_dry_real)
  then have c6: "removed_count (remove_old_containers d image_name m True)
          = length (filter selected (outcomes (remove_old_containers d image_name m False)))"
    by (simp add: removed_count_eq out counted_removed_dry)
  have c7: "\<not> list_ex attempted (outcomes (remove_old_containers d image_name m True))"
    by (simp add: out dry_run_attempts_nothing)
  from c1 c2 c3 c4 c5 c6 c7 show ?thesis by blast
qed


lemma example_matching:
  "matching_containers ''happysixd/osworld-docker''
     [stuck_container, old_container, young_container, undated_container, foreign_container]
   = [stuck_container, old_container, young_container, undated_container]"
  by (simp add: stuck_container_def old_container_def young_container_def
      undated_container_def foreign_container_def sublist_Cons_right)

lemma example_ages:
  "get_container_age_minutes 600000000 stuck_container = Some 10"
  "get_container_age_minutes 600000000 old_container = Some 10"
  "get_container_age_minutes 600000000 young_container = Some 1"
  "get_container_age_minutes 600000000 undated_container = None"
  "get_container_age_minutes 600000000 foreign_container = Some 10"
  by code_simp+

lemma example_removals:
  "remove_raises stuck_container = Some (Exception ''409 Conflict'')"
  "remove_raises old_container = None"
  "remove_raises young_container = None"
  "remove_raises undated_container = None"
  by (simp_all add: stuck_container_def old_container_def young_container_def
      undated_container_def)

lemma example_sweep:
  "remove_old_containers example_docker ''happysixd/osworld-docker'' 5 False =
     \<lparr>removed_count = 1, failed_count = 2,
      outcomes = [RemoveFailed, Removed, TooYoung, AgeFailed]\<rparr>"
proof -
  have "from_env example_docker = None"
    and "containers_list example_docker =
      Inr [stuck_container, old_container, young_container, undated_container, foreign_container]"
    and "utc_now example_docker = (\<lambda>i. 600000000)"
    by (simp_all add: example_docker_def)
  then show ?thesis
    by (simp add: remove_old_containers_listed example_matching no_sweep_def
        process_container_def example_ages example_removals del: matching_containers.simps)
qed

lemma example_dry_sweep:
  "remove_old_containers example_docker ''happysixd/osworld-docker'' 5 True =
     \<lparr>removed_count = 2, failed_count = 1,
      outcomes = [WouldRemove, WouldRemove, TooYoung, AgeFailed]\<rparr>"
proof -
  have "from_env example_docker = None"
    and "containers_list example_docker =
      Inr [stuck_container, old_container, young_container, undated_container, foreign_container]"
    and "utc_now example_docker = (\<lambda>i. 600000000)"
    by (simp_all add: example_docker_def)
  then show ?thesis
    by (simp add: remove_old_containers_listed example_matching no_sweep_def
        process_container_def example_ages example_removals del: matching_containers.simps)
qed

theorem janitor_age_selection_witness:
  "from_env example_docker = None
   \<and> containers_list example_docker =
       Inr [stuck_container, old_container, young_container, undated_container, foreign_container]
   \<and> 1 < length (matching_containers ''happysixd/osworld-docker''
         [stuck_container, old_container, young_container, undated_container, foreign_container])
   \<and> get_container_age_minutes (utc_now example_docker 1) old_container = Some 10
   \<and> attempted (outcomes (remove_old_containers example_docker ''happysixd/osworld-docker'' 5 False) ! 1)
   \<and> outcomes (remove_old_containers example_docker ''happysixd/osworld-docker'' 5 True) ! 1
       = WouldRemove
   \<and> removed_count (remove_old_containers example_docker ''happysixd/osworld-docker'' 5 True) =
       length (filter selected
         (outcomes (remove_old_containers example_docker ''happysixd/osworld-docker'' 5 False)))"
proof -
  have h1: "from_env example_docker = None"
    and h2: "containers_list example_docker =
       Inr [stuck_container, old_container, young_container, undated_container, foreign_container]"
    and now: "utc_now example_docker = (\<lambda>i. 600000000)"
    by (simp_all add: example_docker_def)
  have h3: "1 < length (matching_containers ''happysixd/osworld-docker''
         [stuck_container, old_container, young_container, undated_container, foreign_container])"
    by (simp add: example_matching del: matching_containers.simps)
  have h4: "get_container_age_minutes (utc_now example_docker 1)
      (matching_containers ''happysixd/osworld-docker''
         [stuck_container, old_container, young_container, undated_container, foreign_container] ! 1)
      = Some 10"
    by (simp add: example_matching now example_ages del: matching_containers.simps)
  show ?thesis
    using janitor_age_selection [OF h1 h2 h3 h4, of 5] h1 h2 h3 h4
    by (simp add: example_matching del: matching_containers.simps)
qed

text \<open>
  Claim C2 as stated fails: at 600 s, with threshold 5, \<open>stuck_container\<close> (age 10, of
  the image) is not removed because its removal raises, and \<open>foreign_container\<close> (age
  10, another image) is not looked at.
\<close>

theorem janitor_age_selection_counterexample:
  "containers_list example_docker =
       Inr [stuck_container, old_container, young_container, undated_container, foreign_container]
   \<and> get_container_age_minutes (utc_now example_docker 0) stuck_container = Some 10
   \<and> get_container_age_minutes (utc_now example_docker 4) foreign_container = Some 10
   \<and> (10::int) \<ge> 5
   \<and> outcomes (remove_old_containers example_docker ''happysixd/osworld-docker'' 5 False)
       = [RemoveFailed, Removed, TooYoung, AgeFailed]
   \<and> sweep_result (remove_old_containers example_docker ''happysixd/osworld-docker'' 5 False)
       = (1, 2)"
  by (simp add: example_sweep sweep_result_def)
     (simp add: example_docker_def example_ages)

text \<open>
  Claim C6. Once the containers are listed, the sweep gives every matching container
  its own outcome, the one it would get alone, whatever happened to the others: no
  failure ends the loop. The failure count is the number of containers whose age could
  not be computed or whose removal raised, the removed count the number removed (or
  reported by a dry run), and the function returns this pair. (A container whose image
  cannot be read is no matching container: the filter before the sweep skips it.)
\<close>

theorem sweep_survives_failures:
  assumes "from_env d = None" and "containers_list d = Inr everything"
  shows
    "outcomes (remove_old_containers d image_name m dr) =
       map (\<lambda>i. container_outcome (utc_now d i) m dr (matching_containers image_name everything ! i))
         [0..<length (matching_containers image_name everything)]
     \<and> failed_count (remove_old_containers d image_name m dr) =
         length (filter counted_failed (outcomes (remove_old_containers d image_name m dr)))
     \<and> removed_count (remove_old_containers d image_name m dr) =
         length (filter counted_removed (outcomes (remove_old_containers d image_name m dr)))
     \<and> sweep_result (remove_old_containers d image_name m dr) =
         (removed_count (remove_old_containers d image_name m dr),
          failed_count (remove_old_containers d image_name m dr))
     \<and> (\<forall>now c. get_container_age_minutes now c = None \<longrightarrow>
           counted_failed (container_outcome now m dr c))
     \<and> (\<forall>now c age_minutes e. get_container_age_minutes now c = Some age_minutes \<and>
           age_minutes \<ge> m \<and> \<not> dr \<and> remove_raises c = Some e \<longrightarrow>
           counted_failed (container_outcome now m dr c))"
proof -
  have "outcomes (remove_old_containers d image_name m dr) =
       map (\<lambda>i. container_outcome (utc_now d i) m dr (matching_containers image_name everything ! i))
         [0..<length (matching_containers image_name everything)]"
    by (simp add: outcomes_listed [OF assms] loop_outcomes_def)
  moreover have "\<forall>now c. get_container_age_minutes now c = None \<longrightarrow>
           counted_failed (container_outcome now m dr c)"
    by (simp add: container_outcome_cases counted_failed_def)
  moreover have "\<forall>now c age_minutes e. get_container_age_minutes now c = Some age_minutes \<and>
           age_minutes \<ge> m \<and> \<not> dr \<and> remove_raises c = Some e \<longrightarrow>
           counted_failed (container_outcome now m dr c)"
    by (simp add: container_outcome_cases counted_failed_def)
  ultimately show ?thesis
    using failed_count_eq [of d image_name m dr] removed_count_eq [of d image_name m dr]
    by (simp add: sweep_result_def)
qed


theorem sweep_survives_failures_witness:
  "from_env example_docker = None
   \<and> containers_list example_docker =
       Inr [stuck_container, old_container, young_container, undated_container, foreign_container]
   \<and> outcomes (remove_old_containers example_docker ''happysixd/osworld-docker'' 5 False)
       = [RemoveFailed, Removed, TooYoung, AgeFailed]
   \<and> failed_count (remove_old_containers example_docker ''happysixd/osworld-docker'' 5 False) = 2
   \<and> removed_count (remove_old_containers example_docker ''happysixd/osworld-docker'' 5 False) = 1
   \<and> get_container_age_minutes 600000000 undated_container = None
   \<and> counted_failed (container_outcome 600000000 5 False undated_container)
   \<and> get_container_age_minutes 600000000 stuck_container = Some 10
   \<and> remove_raises stuck_container = Some (Exception ''409 Conflict'')
   \<and> counted_failed (container_outcome 600000000 5 False stuck_container)"
proof -
  have h1: "from_env example_docker = None"
    and h2: "containers_list example_docker =
       Inr [stuck_container, old_container, young_container, undated_container, foreign_container]"
    by (simp_all add: example_docker_def)
  show ?thesis
    using sweep_survives_failures [OF h1 h2, of "''happysixd/osworld-docker''" 5 False] h1 h2
    by (simp add: example_sweep example_ages example_removals del: matching_containers.simps)
qed

text \<open>
  Claim C9, as amended. For a creation time that parses, to an instant \<open>t\<close> with an
  offset, \<^verbatim>\<open>get_container_age_minutes\<close> returns the quotient of the seconds from \<open>t\<close>
  to \<open>now\<close> by 60, computed in doubles and truncated toward zero. While \<open>now\<close> and \<open>t\<close>
  are less than \<open>2 ^ 26\<close> minutes (127 years) apart this is the exact quotient of
  \<open>now - t\<close> by a minute truncated toward zero: the floor when \<open>t \<le> now\<close>, the negated
  floor of \<open>t - now\<close> otherwise. In every other case, each of which is an exception in
  the source, it returns \<^verbatim>\<open>None\<close>. A container without age is counted as a failure
  and not removed, by the loop body and in the sweep, which goes on.
\<close>

theorem age_minutes_truncated:
  "(created c = Inr (Aware t) \<longrightarrow>
      get_container_age_minutes now c
        = Some (py_int (double_round (total_seconds (now - t) / 60))))
   \<and> (created c = Inr (Aware t) \<and> \<bar>now - t\<bar> < 60000000 * 2 ^ 26 \<longrightarrow>
      get_container_age_minutes now c = Some ((now - t) sdiv 60000000))
   \<and> (created c = Inr (Aware t) \<and> t \<le> now \<and> now - t < 60000000 * 2 ^ 26 \<longrightarrow>
      get_container_age_minutes now c = Some ((now - t) div 60000000))
   \<and> (created c = Inr (Aware t) \<and> now < t \<and> t - now < 60000000 * 2 ^ 26 \<longrightarrow>
      get_container_age_minutes now c = Some (- ((t - now) div 60000000)))
   \<and> ((\<forall>u. created c \<noteq> Inr (Aware u)) \<longrightarrow> get_container_age_minutes now c = None)
   \<and> (get_container_age_minutes now c = None \<longrightarrow>
      process_container now m dr c s =
        s\<lparr>failed_count := failed_count s + 1, outcomes := outcomes s @ [AgeFailed]\<rparr>)
   \<and> (from_env d = None \<and> containers_list d = Inr everything
       \<and> i < length (matching_containers image_name everything)
       \<and> get_container_age_minutes (utc_now d i) (matching_containers image_name everything ! i)
           = None \<longrightarrow>
      outcomes (remove_old_containers d image_name m dr) ! i = AgeFailed
      \<and> length (outcomes (remove_old_containers d image_name m dr))
          = length (matching_containers image_name everything)
      \<and> failed_count (remove_old_containers d image_name m dr) =
          length (filter counted_failed (outcomes (remove_old_containers d image_name m dr))))"
proof -
  have a1: "created c = Inr (Aware t) \<longrightarrow>
      get_container_age_minutes now c
        = Some (py_int (double_round (total_seconds (now - t) / 60)))"
    by (simp add: get_container_age_minutes_def)
  have a2: "created c = Inr (Aware t) \<and> \<bar>now - t\<bar> < 60000000 * 2 ^ 26 \<longrightarrow>
      get_container_age_minutes now c = Some ((now - t) sdiv 60000000)"
    using float_age_truncated [of "now - t"] by (simp add: get_container_age_minutes_def)
  have a3: "created c = Inr (Aware t) \<and> t \<le> now \<and> now - t < 60000000 * 2 ^ 26 \<longrightarrow>
      get_container_age_minutes now c = Some ((now - t) div 60000000)"
    using float_age_exact [of "now - t"] by (simp add: get_container_age_minutes_def)
  have a4: "created c = Inr (Aware t) \<and> now < t \<and> t - now < 60000000 * 2 ^ 26 \<longrightarrow>
      get_container_age_minutes now c = Some (- ((t - now) div 60000000))"
    using float_age_exact [of "t - now"] float_age_minus [of "t - now"]
    by (simp add: get_container_age_minutes_def)
  have a5: "(\<forall>u. created c \<noteq> Inr (Aware u)) \<longrightarrow> get_container_age_minutes now c = None"
    by (simp add: get_container_age_minutes_def split: sum.splits datetime.splits)
  have a6: "get_container_age_minutes now c = None \<longrightarrow>
      process_container now m dr c s =
        s\<lparr>failed_count := failed_count s + 1, outcomes := outcomes s @ [AgeFailed]\<rparr>"
    by (simp add: process_container_def)
  have a7: "from_env d = None \<and> containers_list d = Inr everything
       \<and> i < length (matching_containers image_name everything)
       \<and> get_container_age_minutes (utc_now d i) (matching_containers image_name everything ! i)
           = None \<longrightarrow>
      outcomes (remove_old_containers d image_name m dr) ! i = AgeFailed
      \<and> length (outcomes (remove_old_containers d image_name m dr))
          = length (matching_containers image_name everything)
      \<and> failed_count (remove_old_containers d image_name m dr) =
          length (filter counted_failed (outcomes (remove_old_containers d image_name m dr)))"
    using failed_count_eq [of d image_name m dr]
    by (simp add: outcomes_listed length_loop_outcomes nth_loop_outcomes container_outcome_cases)
  from a1 a2 a3 a4 a5 a6 a7 show ?thesis by blast
qed

text \<open>
  Claim C9 as stated fails for a container created 30 seconds after the reading of the
  clock: the function returns 0, the floor is \<open>-1\<close>; with threshold 0 the container is
  removed. It also fails for a container of positive age: for one created at
  \<^verbatim>\<open>0001-01-01T00:00:00Z\<close> and read at \<^verbatim>\<open>2026-11-03T12:00:59.999999Z\<close> the
  doubles round the quotient up to 1065488401, the floor is 1065488400.
\<close>

theorem age_minutes_floor_counterexample:
  "created future_container = Inr (Aware 630000000)
   \<and> get_container_age_minutes 600000000 future_container = Some 0
   \<and> \<lfloor>real_of_int (600000000 - 630000000) / 60000000\<rfloor> = (- 1 :: int)
   \<and> container_outcome 600000000 0 False future_container = Removed
   \<and> created ancient_container = Inr (Aware (- 62135596800000000))
   \<and> get_container_age_minutes 1793707259999999 ancient_container = Some 1065488401
   \<and> \<lfloor>real_of_int (1793707259999999 - (- 62135596800000000)) / 60000000\<rfloor>
       = (1065488400 :: int)"
proof -
  have 1: "get_container_age_minutes 600000000 future_container = Some 0"
    by code_simp
  have 2: "get_container_age_minutes 1793707259999999 ancient_container = Some 1065488401"
    by code_simp
  have 3: "remove_raises future_container = None"
    by (simp add: future_container_def old_container_def)
  have 4: "\<lfloor>real_of_int (1793707259999999 - (- 62135596800000000)) / 60000000\<rfloor>
       = (1065488400 :: int)"
    by (simp add: floor_unique)
  have 5: "\<lfloor>real_of_int (600000000 - 630000000) / 60000000\<rfloor> = (- 1 :: int)"
    by (simp add: floor_unique)
  have 6: "created future_container = Inr (Aware 630000000)"
    "created ancient_container = Inr (Aware (- 62135596800000000))"
    by (simp_all add: future_container_def ancient_container_def old_container_def)
  from 1 2 3 4 5 6 show ?thesis
    by (simp add: container_outcome_cases)
qed

theorem age_minutes_truncated_witness:
  "created future_container = Inr (Aware 630000000)
   \<and> get_container_age_minutes 600000000 future_container = Some 0
   \<and> created old_container = Inr (Aware 0)
   \<and> get_container_age_minutes 600000000 old_container = Some 10
   \<and> get_container_age_minutes 600000000 undated_container = None
   \<and> process_container 600000000 5 False undated_container no_sweep =
       \<lparr>removed_count = 0, failed_count = 1, outcomes = [AgeFailed]\<rparr>
   \<and> outcomes (remove_old_containers example_docker ''happysixd/osworld-docker'' 5 False) ! 3
       = AgeFailed"
proof -
  have h1: "from_env example_docker = None"
    and h2: "containers_list example_docker =
       Inr [stuck_container, old_container, young_container, undated_container, foreign_container]"
    and now: "utc_now example_docker = (\<lambda>i. 600000000)"
    by (simp_all add: example_docker_def)
  have f: "created future_container = Inr (Aware 630000000)"
    by (simp add: future_container_def old_container_def)
  have o: "created old_container = Inr (Aware 0)"
    by (simp add: old_container_def)
  have u: "\<forall>u. created undated_container \<noteq> Inr (Aware u)"
    by (simp add: undated_container_def old_container_def)
  have l: "3 < length (matching_containers ''happysixd/osworld-docker''
      [stuck_container, old_container, young_container, undated_container, foreign_container])"
    by (simp add: example_matching del: matching_containers.simps)
  have r1: "\<bar>600000000 - 630000000\<bar> < (60000000 * 2 ^ 26 :: int)"
    and r2: "\<bar>600000000 - 0\<bar> < (60000000 * 2 ^ 26 :: int)"
    by simp_all
  have "get_container_age_minutes 600000000 future_container
          = Some ((600000000 - 630000000) sdiv 60000000)"
    using age_minutes_truncated [of future_container 630000000 600000000] f r1 by blast
  then have "get_container_age_minutes 600000000 future_container = Some 0"
    by (simp add: signed_divide_int_def)
  moreover have "get_container_age_minutes 600000000 old_container
          = Some ((600000000 - 0) sdiv 60000000)"
    using age_minutes_truncated [of old_container 0 600000000] o r2 by blast
  then have "get_container_age_minutes 600000000 old_container = Some 10"
    by (simp add: signed_divide_int_def)
  moreover have n: "get_container_age_minutes 600000000 undated_container = None"
    using age_minutes_truncated [of undated_container _ 600000000] u by blast
  moreover have "process_container 600000000 5 False undated_container no_sweep =
       \<lparr>removed_count = 0, failed_count = 1, outcomes = [AgeFailed]\<rparr>"
    using age_minutes_truncated [of undated_container _ 600000000 5 False no_sweep] n
    by (simp add: no_sweep_def)
  moreover have "outcomes (remove_old_containers example_docker ''happysixd/osworld-docker'' 5 False) ! 3
       = AgeFailed"
    using age_minutes_truncated [of _ _ _ 5 False _ example_docker
        "[stuck_container, old_container, young_container, undated_container, foreign_container]"
        3 "''happysixd/osworld-docker''"] h1 h2 l n
    by (simp add: example_matching now del: matching_containers.simps)
  ultimately show ?thesis
    using f o by simp
qed

lemma filter_nonempty_list_ex: "filter P xs \<noteq> [] \<longleftrightarrow> list_ex P xs"
  by (induction xs) auto

text \<open>
  Claim C10. \<^verbatim>\<open>main\<close> exits with 1 iff the failure count of the sweep is positive, that
  is iff some container's age could not be computed or its removal raised, and with 0
  otherwise. When the runtime cannot be reached the sweep returns \<open>(0, 0)\<close> and the
  status is 0.
\<close>

theorem exit_status:
  "(main d a = 1 \<longleftrightarrow>
      failed_count (remove_old_containers d (image_arg a) (min_age a) (dry_run a)) > 0)
   \<and> (main d a = 0 \<longleftrightarrow>
      failed_count (remove_old_containers d (image_arg a) (min_age a) (dry_run a)) = 0)
   \<and> (main d a = 1 \<longleftrightarrow>
      list_ex counted_failed
        (outcomes (remove_old_containers d (image_arg a) (min_age a) (dry_run a))))
   \<and> (from_env d \<noteq> None \<longrightarrow>
      sweep_result (remove_old_containers d (image_arg a) (min_age a) (dry_run a)) = (0, 0)
      \<and> main d a = 0)"
proof -
  let ?s = "remove_old_containers d (image_arg a) (min_age a) (dry_run a)"
  have m: "main d a = (if failed_count ?s > 0 then 1 else 0)"
    by (simp add: main_def sweep_result_def)
  have "failed_count ?s > 0 \<longleftrightarrow> list_ex counted_failed (outcomes ?s)"
    by (simp add: failed_count_eq [of d "image_arg a" "min_age a" "dry_run a"]
        filter_nonempty_list_ex)
  moreover have "from_env d \<noteq> None \<longrightarrow> ?s = no_sweep"
    by (auto simp: remove_old_containers_def)
  ultimately show ?thesis
    using m by (auto simp: sweep_result_def no_sweep_def)
qed

theorem exit_status_witness:
  "from_env unreachable_docker \<noteq> None
   \<and> sweep_result (remove_old_containers unreachable_docker ''happysixd/osworld-docker'' 5 False)
       = (0, 0)
   \<and> main unreachable_docker
       \<lparr>min_age = 5, dry_run = False, image_arg = ''happysixd/osworld-docker''\<rparr> = 0"
proof -
  have "from_env unreachable_docker \<noteq> None"
    by (simp add: unreachable_docker_def)
  then show ?thesis
    using exit_status [of unreachable_docker
        "\<lparr>min_age = 5, dry_run = False, image_arg = ''happysixd/osworld-docker''\<rparr>"]
    by simp
qed

section \<open>The client and the recognition of a denial\<close>


lemma truthy_py_get:
  "truthy (py_get inner k) \<longleftrightarrow> (\<exists>v. map_of inner k = Some v \<and> truthy v)"
  by (simp add: py_get_def split: option.splits)

lemma py_eq_zero_py_get:
  "py_eq_zero (py_get members k) \<longleftrightarrow> (\<exists>v. map_of members k = Some v \<and> py_eq_zero v)"
  by (simp add: py_get_def split: option.splits)

lemma start_emulator_exception:
  "session (join base_url ''start_emulator'') (JObj [(''token'', JStr token)]) t = Inl (Exception msg)
   \<Longrightarrow> start_emulator session base_url token t = (False, Failed msg)"
  by (simp add: start_emulator_def response_data_def)

lemma start_emulator_not_json:
  "session (join base_url ''start_emulator'') (JObj [(''token'', JStr token)]) t = Inr r
   \<Longrightarrow> json_body r = None
   \<Longrightarrow> start_emulator session base_url token t =
        (False, Rejected (status_code r) (JObj [(''text'', JStr (body_text r))]))"
  by (simp add: start_emulator_def response_data_def py_get_def)

lemma start_emulator_response:
  assumes "session (join base_url ''start_emulator'') (JObj [(''token'', JStr token)]) t = Inr r"
  shows "fst (start_emulator session base_url token t) \<longleftrightarrow> accepted r"
proof (cases "json_body r")
  case None
  then show ?thesis
    using assms by (simp add: start_emulator_not_json accepted_def)
next
  case (Some data)
  show ?thesis
  proof (cases data)
    case (JObj members)
    show ?thesis
    proof (cases "ok r \<and> py_eq_zero (py_get members ''code'')")
      case False
      then have "\<not> accepted r"
        using Some JObj by (auto simp: accepted_def py_eq_zero_py_get)
      moreover have "\<not> fst (start_emulator session base_url token t)"
        using assms Some JObj False by (auto simp: start_emulator_def response_data_def Let_def)
      ultimately show ?thesis by simp
    next
      case True
      show ?thesis
      proof (cases "map_of members ''data''")
        case None
        then show ?thesis
          using assms Some JObj True
          by (simp add: start_emulator_def response_data_def accepted_def py_get_default_def py_get_def Let_def)
      next
        case inner: (Some d)
        then show ?thesis
          using assms Some JObj True
          by (cases d)
             (auto simp: start_emulator_def response_data_def accepted_def py_get_default_def truthy_py_get
               py_eq_zero_py_get Let_def)
      qed
    qed
  qed (use assms Some in \<open>simp_all add: start_emulator_def response_data_def accepted_def Let_def\<close>)
qed

lemma start_emulator_started:
  assumes "session (join base_url ''start_emulator'') (JObj [(''token'', JStr token)]) t = Inr r"
    and "ok r" and "json_body r = Some (JObj members)"
    and "map_of members ''code'' = Some code_v" and "py_eq_zero code_v"
    and "map_of members ''data'' = Some (JObj inner)"
    and "map_of inner ''emulator_id'' = Some eid" and "truthy eid"
  shows "start_emulator session base_url token t
           = (True, Started (status_code r) (JObj members) eid)"
  using assms
  by (simp add: start_emulator_def response_data_def py_get_def py_get_default_def)

lemma start_emulator_attribute_error:
  assumes "session (join base_url ''start_emulator'') (JObj [(''token'', JStr token)]) t = Inr r"
    and "ok r" and "json_body r = Some (JObj members)"
    and "map_of members ''code'' = Some code_v" and "py_eq_zero code_v"
    and "map_of members ''data'' = Some v" and "\<forall>inner. v \<noteq> JObj inner"
  shows "start_emulator session base_url token t = (False, Failed (attribute_error v))"
  using assms
  by (cases v) (simp_all add: start_emulator_def response_data_def py_get_def py_get_default_def)

lemma start_emulator_rejected:
  assumes post: "session (join base_url ''start_emulator'') (JObj [(''token'', JStr token)]) t = Inr r"
    and na: "\<not> accepted r" and nd: "\<not> data_not_dict r"
  shows "start_emulator session base_url token t
           = (False, Rejected (status_code r) (response_data r))"
proof (cases "response_data r")
  case (JObj members)
  show ?thesis
  proof (cases "ok r \<and> py_eq_zero (py_get members ''code'')")
    case False
    then show ?thesis
      using post JObj by (auto simp: start_emulator_def response_data_def Let_def)
  next
    case True
    show ?thesis
    proof (cases "json_body r")
      case None
      then have "members = [(''text'', JStr (body_text r))]"
        using JObj by (simp add: response_data_def)
      then show ?thesis
        using True by (simp add: py_get_def)
    next
      case (Some body)
      then have body: "json_body r = Some (JObj members)"
        using JObj by (simp add: response_data_def)
      from True obtain code_v where
        code: "map_of members ''code'' = Some code_v" "py_eq_zero code_v"
        by (auto simp: py_eq_zero_py_get)
      show ?thesis
      proof (cases "map_of members ''data''")
        case None
        then show ?thesis
          using post JObj True
          by (simp add: start_emulator_def response_data_def py_get_default_def py_get_def)
      next
        case d: (Some v)
        with nd True body code obtain inner where v: "v = JObj inner"
          by (auto simp: data_not_dict_def)
        have "\<not> truthy (py_get inner ''emulator_id'')"
          using na True body code d v by (auto simp: accepted_def truthy_py_get)
        then show ?thesis
          using post JObj True d v
          by (simp add: start_emulator_def response_data_def py_get_default_def)
      qed
    qed
  qed
qed (use post in \<open>simp_all add: start_emulator_def response_data_def\<close>)


text \<open>
  Claim C8. \<^verbatim>\<open>start_emulator\<close> answers success iff the request got a response whose
  status is OK and whose JSON body is an object with \<^verbatim>\<open>code\<close> equal to 0 (Python's
  \<^verbatim>\<open>==\<close>) and with an object \<^verbatim>\<open>data\<close> holding a true (non-empty) \<^verbatim>\<open>emulator_id\<close>;
  the details of the success are the status code, the body and that \<^verbatim>\<open>emulator_id\<close>.
  Every other case is a failure, and its details are fixed: a transport exception gives
  the error message; a body that is not JSON gives the status code and the text of the
  response; a response with status OK and \<^verbatim>\<open>code\<close> 0 whose \<^verbatim>\<open>data\<close> is present and
  is no object gives the message of the AttributeError its lookup raises; every
  remaining response gives its status code and its body.
\<close>

theorem start_emulator_classification:
  "(\<forall>r. session (join base_url ''start_emulator'') (JObj [(''token'', JStr token)]) t = Inr r \<longrightarrow>
      (fst (start_emulator session base_url token t) \<longleftrightarrow>
         ok r \<and>
         (\<exists>members inner code_v eid.
            json_body r = Some (JObj members)
            \<and> map_of members ''code'' = Some code_v \<and> py_eq_zero code_v
            \<and> map_of members ''data'' = Some (JObj inner)
            \<and> map_of inner ''emulator_id'' = Some eid \<and> truthy eid)))
   \<and> (\<forall>msg. session (join base_url ''start_emulator'') (JObj [(''token'', JStr token)]) t
          = Inl (Exception msg) \<longrightarrow>
        start_emulator session base_url token t = (False, Failed msg))
   \<and> (\<forall>r. session (join base_url ''start_emulator'') (JObj [(''token'', JStr token)]) t = Inr r
          \<and> json_body r = None \<longrightarrow>
        start_emulator session base_url token t =
          (False, Rejected (status_code r) (JObj [(''text'', JStr (body_text r))])))
   \<and> (\<forall>r members inner code_v eid.
        session (join base_url ''start_emulator'') (JObj [(''token'', JStr token)]) t = Inr r
        \<and> ok r \<and> json_body r = Some (JObj members)
        \<and> map_of members ''code'' = Some code_v \<and> py_eq_zero code_v
        \<and> map_of members ''data'' = Some (JObj inner)
        \<and> map_of inner ''emulator_id'' = Some eid \<and> truthy eid \<longrightarrow>
        start_emulator session base_url token t
          = (True, Started (status_code r) (JObj members) eid))
   \<and> (\<forall>r members code_v v.
        session (join base_url ''start_emulator'') (JObj [(''token'', JStr token)]) t = Inr r
        \<and> ok r \<and> json_body r = Some (JObj members)
        \<and> map_of members ''code'' = Some code_v \<and> py_eq_zero code_v
        \<and> map_of members ''data'' = Some v \<and> (\<forall>inner. v \<noteq> JObj inner) \<longrightarrow>
        start_emulator session base_url token t = (False, Failed (attribute_error v)))
   \<and> (\<forall>r. session (join base_url ''start_emulator'') (JObj [(''token'', JStr token)]) t = Inr r
          \<and> \<not> accepted r \<and> \<not> data_not_dict r \<longrightarrow>
        start_emulator session base_url token t
          = (False, Rejected (status_code r) (response_data r)))"
  using start_emulator_response [of session base_url token t, unfolded accepted_def]
    start_emulator_exception [of session base_url token t]
    start_emulator_not_json [of session base_url token t]
    start_emulator_started [of session base_url token t]
    start_emulator_attribute_error [of session base_url token t]
    start_emulator_rejected [of session base_url token t]
  by blast

theorem start_emulator_classification_witness:
  "granting_session (join ''http://127.0.0.1:50003/'' ''start_emulator'')
       (JObj [(''token'', JStr ''loadtest'')]) 300 = Inr granted_response
   \<and> start_emulator granting_session ''http://127.0.0.1:50003/'' ''loadtest'' 300
       = (True, Started 200
            (JObj [(''code'', JInt 0),
               (''data'', JObj [(''emulator_id'', JStr ''emu-1''), (''vnc_port'', JInt 5900)])])
            (JStr ''emu-1''))
   \<and> broken_session (join ''http://127.0.0.1:50003/'' ''start_emulator'')
       (JObj [(''token'', JStr ''loadtest'')]) 300 = Inl (Exception ''Connection refused'')
   \<and> start_emulator broken_session ''http://127.0.0.1:50003/'' ''loadtest'' 300
       = (False, Failed ''Connection refused'')
   \<and> gateway_session (join ''http://127.0.0.1:50003/'' ''start_emulator'')
       (JObj [(''token'', JStr ''loadtest'')]) 300 = Inr gateway_response
   \<and> json_body gateway_response = None
   \<and> start_emulator gateway_session ''http://127.0.0.1:50003/'' ''loadtest'' 300
       = (False, Rejected 502 (JObj [(''text'', JStr ''Bad Gateway'')]))
   \<and> denying_session (join ''http://127.0.0.1:50003/'' ''start_emulator'')
       (JObj [(''token'', JStr ''loadtest'')]) 300 = Inr denied_response
   \<and> \<not> accepted denied_response \<and> \<not> data_not_dict denied_response
   \<and> start_emulator denying_session ''http://127.0.0.1:50003/'' ''loadtest'' 300
       = (False, Rejected 429
            (JObj [(''code'', JInt 429), (''message'', JStr ''quota exceeded'')]))
   \<and> null_data_session (join ''http://127.0.0.1:50003/'' ''start_emulator'')
       (JObj [(''token'', JStr ''loadtest'')]) 300 = Inr null_data_response
   \<and> start_emulator null_data_session ''http://127.0.0.1:50003/'' ''loadtest'' 300
       = (False, Failed (attribute_error JNull))"
proof -
  have g: "granting_session (join ''http://127.0.0.1:50003/'' ''start_emulator'')
       (JObj [(''token'', JStr ''loadtest'')]) 300 = Inr granted_response"
    by (simp add: granting_session_def)
  have b: "broken_session (join ''http://127.0.0.1:50003/'' ''start_emulator'')
       (JObj [(''token'', JStr ''loadtest'')]) 300 = Inl (Exception ''Connection refused'')"
    by (simp add: broken_session_def)
  have w: "gateway_session (join ''http://127.0.0.1:50003/'' ''start_emulator'')
       (JObj [(''token'', JStr ''loadtest'')]) 300 = Inr gateway_response"
    by (simp add: gateway_session_def)
  have d: "denying_session (join ''http://127.0.0.1:50003/'' ''start_emulator'')
       (JObj [(''token'', JStr ''loadtest'')]) 300 = Inr denied_response"
    by (simp add: denying_session_def)
  have u: "null_data_session (join ''http://127.0.0.1:50003/'' ''start_emulator'')
       (JObj [(''token'', JStr ''loadtest'')]) 300 = Inr null_data_response"
    by (simp add: null_data_session_def)
  have n: "json_body gateway_response = None" "status_code gateway_response = 502"
    "body_text gateway_response = ''Bad Gateway''"
    by (simp_all add: gateway_response_def)
  have a: "ok granted_response
      \<and> json_body granted_response = Some (JObj [(''code'', JInt 0),
          (''data'', JObj [(''emulator_id'', JStr ''emu-1''), (''vnc_port'', JInt 5900)])])
      \<and> map_of [(''code'', JInt 0),
          (''data'', JObj [(''emulator_id'', JStr ''emu-1''), (''vnc_port'', JInt 5900)])]
          ''code'' = Some (JInt 0)
      \<and> py_eq_zero (JInt 0)
      \<and> map_of [(''code'', JInt 0),
          (''data'', JObj [(''emulator_id'', JStr ''emu-1''), (''vnc_port'', JInt 5900)])]
          ''data'' = Some (JObj [(''emulator_id'', JStr ''emu-1''), (''vnc_port'', JInt 5900)])
      \<and> map_of [(''emulator_id'', JStr ''emu-1''), (''vnc_port'', JInt 5900)] ''emulator_id''
          = Some (JStr ''emu-1'')
      \<and> truthy (JStr ''emu-1'')"
    by (simp add: granted_response_def)
  have sc: "status_code granted_response = 200"
    by (simp add: granted_response_def)
  have r: "\<not> accepted denied_response" "\<not> data_not_dict denied_response"
    "status_code denied_response = 429"
    "response_data denied_response
       = JObj [(''code'', JInt 429), (''message'', JStr ''quota exceeded'')]"
    by (simp_all add: accepted_def data_not_dict_def denied_response_def response_data_def)
  have m: "ok null_data_response
      \<and> json_body null_data_response = Some (JObj [(''code'', JInt 0), (''data'', JNull)])
      \<and> map_of [(''code'', JInt 0), (''data'', JNull)] ''code'' = Some (JInt 0)
      \<and> py_eq_zero (JInt 0)
      \<and> map_of [(''code'', JInt 0), (''data'', JNull)] ''data'' = Some JNull
      \<and> (\<forall>inner. JNull \<noteq> JObj inner)"
    by (simp add: null_data_response_def)
  have "start_emulator granting_session ''http://127.0.0.1:50003/'' ''loadtest'' 300
       = (True, Started (status_code granted_response)
            (JObj [(''code'', JInt 0),
               (''data'', JObj [(''emulator_id'', JStr ''emu-1''), (''vnc_port'', JInt 5900)])])
            (JStr ''emu-1''))"
    using start_emulator_classification
      [of granting_session "''http://127.0.0.1:50003/''" "''loadtest''" 300] g a
    by blast
  moreover have "start_emulator broken_session ''http://127.0.0.1:50003/'' ''loadtest'' 300
       = (False, Failed ''Connection refused'')"
    using start_emulator_classification
      [of broken_session "''http://127.0.0.1:50003/''" "''loadtest''" 300] b
    by blast
  moreover have "start_emulator gateway_session ''http://127.0.0.1:50003/'' ''loadtest'' 300
       = (False, Rejected 502 (JObj [(''text'', JStr ''Bad Gateway'')]))"
    using start_emulator_classification
      [of gateway_session "''http://127.0.0.1:50003/''" "''loadtest''" 300] w n
    by metis
  moreover have "start_emulator denying_session ''http://127.0.0.1:50003/'' ''loadtest'' 300
       = (False, Rejected (status_code denied_response) (response_data denied_response))"
    using start_emulator_classification
      [of denying_session "''http://127.0.0.1:50003/''" "''loadtest''" 300] d r(1,2)
    by blast
  moreover have "start_emulator null_data_session ''http://127.0.0.1:50003/'' ''loadtest'' 300
       = (False, Failed (attribute_error JNull))"
    using start_emulator_classification
      [of null_data_session "''http://127.0.0.1:50003/''" "''loadtest''" 300] u m
    by blast
  ultimately show ?thesis
    using g b w d u n r sc by simp
qed











section \<open>The broker on one server\<close>

lemma rotation_one: "rotation (Suc 0) k = [0]"
  by (simp add: rotation_def)

lemma Choose_single:
  "Choose [c] k = (if held c < cap c then Some 0 else None)"
  by (simp add: Choose_def candidates_def rotation_one)

lemma admit_single:
  "ledger b = [c] \<Longrightarrow>
   admit 0 b =
     (if held c < cap c
      then (Granted (next_id b) 0,
            b\<lparr>ledger := [c\<lparr>held := held c + 1\<rparr>], cursor := 0,
              instances := instances b @ [(next_id b, 0)], next_id := next_id b + 1\<rparr>)
      else (QuotaExceeded, b))"
  by (simp add: admit_def TryAdmit_def Let_def)

lemma Start_single:
  "ledger b = [c] \<Longrightarrow>
   Start b =
     (if held c < cap c
      then (Granted (next_id b) 0,
            b\<lparr>ledger := [c\<lparr>held := held c + 1\<rparr>], cursor := 0,
              instances := instances b @ [(next_id b, 0)], next_id := next_id b + 1\<rparr>)
      else (QuotaExceeded, b))"
  by (simp add: Start_def Choose_single admit_single)

lemma quota_denial_recognised: "load_test_quota_error quota_denial_message"
  by code_simp

lemma attempt_single_granted:
  assumes "ledger b = [c]" and "held c < cap c"
  shows "\<exists>b'. attempt (DesktopEnv [k]) (b, t) =
           (b', t\<lparr>environments := environments t @
                    [\<lparr>emulator_id = next_id b, remote_docker_server = k\<rparr>],
                  success_count := success_count t + 1\<rparr>)
           \<and> ledger b' = [c\<lparr>held := held c + 1\<rparr>] \<and> next_id b' = next_id b + 1"
  using assms by (simp add: attempt_def DesktopEnv_def client_answer_def Start_single)

lemma attempt_single_denied:
  assumes "ledger b = [c]" and "\<not> held c < cap c"
  shows "attempt (DesktopEnv [k]) (b, t) =
           (b, t\<lparr>failure_count := failure_count t + 1, causes := causes t @ [QuotaLimit]\<rparr>)"
  using assms by (simp add: attempt_def DesktopEnv_def client_answer_def Start_single quota_denial_recognised)

lemma attempts_single_full:
  assumes "ledger b = [c]" and "\<not> held c < cap c"
  shows "attempts (DesktopEnv [k]) n (b, t) =
           (b, t\<lparr>failure_count := failure_count t + n,
                  causes := causes t @ replicate n QuotaLimit\<rparr>)"
  using assms
proof (induction n arbitrary: t)
  case 0
  then show ?case by simp
next
  case (Suc n)
  show ?case
    by (simp add: attempt_single_denied [OF Suc.prems] Suc.IH [OF Suc.prems]
        replicate_append_same)
qed

lemma attempts_single:
  assumes "ledger b = [\<lparr>held = h, cap = l\<rparr>]" and "h \<le> l"
  shows "success_count (snd (attempts (DesktopEnv [k]) n (b, t)))
           = success_count t + min n (l - h)
       \<and> failure_count (snd (attempts (DesktopEnv [k]) n (b, t)))
           = failure_count t + (n - (l - h))
       \<and> causes (snd (attempts (DesktopEnv [k]) n (b, t)))
           = causes t @ replicate (n - (l - h)) QuotaLimit"
  using assms
proof (induction n arbitrary: b t h)
  case 0
  then show ?case by simp
next
  case (Suc n)
  show ?case
  proof (cases "h < l")
    case True
    then obtain b' where
      step: "attempt (DesktopEnv [k]) (b, t) =
           (b', t\<lparr>environments := environments t @
                    [\<lparr>emulator_id = next_id b, remote_docker_server = k\<rparr>],
                  success_count := success_count t + 1\<rparr>)"
      and led: "ledger b' = [\<lparr>held = Suc h, cap = l\<rparr>]"
      using attempt_single_granted [OF Suc.prems(1)] by auto
    from True have "Suc h \<le> l" by simp
    from Suc.IH [OF led this] True show ?thesis
      by (simp add: step) 
  next
    case False
    with Suc.prems have "h = l" by simp
    then show ?thesis
      using attempts_single_full [OF Suc.prems(1), of k "Suc n" t] Suc.prems
      by simp
  qed
qed

lemma fresh_single: "ledger (fresh_broker [l]) = [\<lparr>held = 0, cap = l\<rparr>]"
  by (simp add: fresh_broker_def)

text \<open>
  Claim C3. On a single server with limit 4 where the token holds nothing, six starts
  in a row succeed for the first four and are denied, with the message of a quota
  denial, for the last two. The script's verification passes iff the success count is
  the expected number \<^verbatim>\<open>MAX_ATTEMPTS\<close> and the failure count is 2. In general a server
  with limit \<open>l\<close> grants \<open>l\<close> of \<open>l + 2\<close> starts and denies two, so the script, which has
  \<^verbatim>\<open>MAX_ATTEMPTS = 10\<close>, passes against exactly the limit 10.
\<close>

theorem exact_capacity_admission:
  "(ledger b = [\<lparr>held = 0, cap = 4\<rparr>] \<longrightarrow>
      success_count (snd (attempts (DesktopEnv [k]) 4 (b, load_test_start))) = 4
      \<and> failure_count (snd (attempts (DesktopEnv [k]) 4 (b, load_test_start))) = 0
      \<and> success_count (snd (attempts (DesktopEnv [k]) 6 (b, load_test_start))) = 4
      \<and> failure_count (snd (attempts (DesktopEnv [k]) 6 (b, load_test_start))) = 2
      \<and> causes (snd (attempts (DesktopEnv [k]) 6 (b, load_test_start)))
          = [QuotaLimit, QuotaLimit])
   \<and> (load_test_passes t \<longleftrightarrow> success_count t = MAX_ATTEMPTS \<and> failure_count t = 2)
   \<and> (ledger b = [\<lparr>held = 0, cap = l\<rparr>] \<longrightarrow>
      success_count (snd (attempts (DesktopEnv [k]) (l + 2) (b, load_test_start))) = l
      \<and> failure_count (snd (attempts (DesktopEnv [k]) (l + 2) (b, load_test_start))) = 2
      \<and> (env_load_test (DesktopEnv [k]) b \<longleftrightarrow> l = MAX_ATTEMPTS))"
proof -
  have four: "ledger b = [\<lparr>held = 0, cap = 4\<rparr>] \<longrightarrow>
      success_count (snd (attempts (DesktopEnv [k]) 4 (b, load_test_start))) = 4
      \<and> failure_count (snd (attempts (DesktopEnv [k]) 4 (b, load_test_start))) = 0
      \<and> success_count (snd (attempts (DesktopEnv [k]) 6 (b, load_test_start))) = 4
      \<and> failure_count (snd (attempts (DesktopEnv [k]) 6 (b, load_test_start))) = 2
      \<and> causes (snd (attempts (DesktopEnv [k]) 6 (b, load_test_start)))
          = [QuotaLimit, QuotaLimit]"
  proof
    assume led: "ledger b = [\<lparr>held = 0, cap = 4\<rparr>]"
    show "success_count (snd (attempts (DesktopEnv [k]) 4 (b, load_test_start))) = 4
      \<and> failure_count (snd (attempts (DesktopEnv [k]) 4 (b, load_test_start))) = 0
      \<and> success_count (snd (attempts (DesktopEnv [k]) 6 (b, load_test_start))) = 4
      \<and> failure_count (snd (attempts (DesktopEnv [k]) 6 (b, load_test_start))) = 2
      \<and> causes (snd (attempts (DesktopEnv [k]) 6 (b, load_test_start)))
          = [QuotaLimit, QuotaLimit]"
      using attempts_single [OF led, of k 4 load_test_start]
        attempts_single [OF led, of k 6 load_test_start]
      by (simp add: load_test_start_def numeral_2_eq_2)
  qed
  have verdict: "load_test_passes t \<longleftrightarrow> success_count t = MAX_ATTEMPTS \<and> failure_count t = 2"
    by (simp add: load_test_passes_def expected_success_def expected_failure_def)
  have general: "ledger b = [\<lparr>held = 0, cap = l\<rparr>] \<longrightarrow>
      success_count (snd (attempts (DesktopEnv [k]) (l + 2) (b, load_test_start))) = l
      \<and> failure_count (snd (attempts (DesktopEnv [k]) (l + 2) (b, load_test_start))) = 2
      \<and> (env_load_test (DesktopEnv [k]) b \<longleftrightarrow> l = MAX_ATTEMPTS)"
  proof
    assume led: "ledger b = [\<lparr>held = 0, cap = l\<rparr>]"
    have script: "env_load_test (DesktopEnv [k]) b \<longleftrightarrow> l = MAX_ATTEMPTS"
      using attempts_single [OF led, of k TOTAL_ATTEMPTS load_test_start]
      by (auto simp: env_load_test_def load_test_passes_def expected_success_def
          expected_failure_def TOTAL_ATTEMPTS_def MAX_ATTEMPTS_def load_test_start_def)
    show "success_count (snd (attempts (DesktopEnv [k]) (l + 2) (b, load_test_start))) = l
      \<and> failure_count (snd (attempts (DesktopEnv [k]) (l + 2) (b, load_test_start))) = 2
      \<and> (env_load_test (DesktopEnv [k]) b \<longleftrightarrow> l = MAX_ATTEMPTS)"
      using attempts_single [OF led, of k "l + 2" load_test_start] script
      by (simp add: load_test_start_def)
  qed
  from four verdict general show ?thesis by blast
qed

theorem exact_capacity_admission_witness:
  "ledger (fresh_broker [4]) = [\<lparr>held = 0, cap = 4\<rparr>]
   \<and> success_count (snd (attempts (DesktopEnv [''10.1.110.43:50003'']) 4
        (fresh_broker [4], load_test_start))) = 4
   \<and> failure_count (snd (attempts (DesktopEnv [''10.1.110.43:50003'']) 4
        (fresh_broker [4], load_test_start))) = 0
   \<and> success_count (snd (attempts (DesktopEnv [''10.1.110.43:50003'']) 6
        (fresh_broker [4], load_test_start))) = 4
   \<and> failure_count (snd (attempts (DesktopEnv [''10.1.110.43:50003'']) 6
        (fresh_broker [4], load_test_start))) = 2
   \<and> ledger (fresh_broker [10]) = [\<lparr>held = 0, cap = 10\<rparr>]
   \<and> env_load_test (DesktopEnv [''10.1.110.43:50003'']) (fresh_broker [10])
   \<and> \<not> env_load_test (DesktopEnv [''10.1.110.43:50003'']) (fresh_broker [4])"
  using exact_capacity_admission
      [of "fresh_broker [4]" "''10.1.110.43:50003''" load_test_start 4]
    exact_capacity_admission
      [of "fresh_broker [10]" "''10.1.110.43:50003''" load_test_start 10]
  by (simp add: fresh_single MAX_ATTEMPTS_def)

section \<open>Two concurrent requests\<close>

lemma start_step_single:
  assumes "ledger b = [\<lparr>held = h, cap = 2\<rparr>]" and "phase_ok h p" and "h \<le> 2" and "1 \<le> h"
  shows "\<exists>p' b' h'. start_step p b = (p', b') \<and> ledger b' = [\<lparr>held = h', cap = 2\<rparr>]
           \<and> h' = h + wins p' - wins p \<and> wins p \<le> wins p' \<and> h' \<le> 2 \<and> phase_ok h' p'
           \<and> (h' = h \<or> h' = 2) \<and> h \<le> h'
           \<and> rank p' \<ge> min 2 (Suc (rank p))"
proof (cases p)
  case Selecting
  then show ?thesis
    using assms by (simp add: start_step_def Choose_single wins_def phase_ok_def rank_def)
next
  case (Admitting sid)
  with assms have "sid = 0" by (simp add: phase_ok_def)
  then show ?thesis
    using assms Admitting
    by (auto simp: start_step_def admit_single wins_def phase_ok_def rank_def)
next
  case (Finished r)
  then show ?thesis
    using assms by (simp add: start_step_def wins_def rank_def)
qed

lemma phase_ok_mono: "phase_ok h p \<Longrightarrow> h' = h \<or> h' = 2 \<Longrightarrow> phase_ok h' p"
  by (auto simp: phase_ok_def split: phase.splits start_result.splits)

lemma race_step_inv:
  assumes "race_inv st"
  shows "race_inv (race_step who st)"
proof -
  obtain p2 p3 b where st: "st = (p2, p3, b)"
    by (cases st) auto
  from assms st obtain h where
    led: "ledger b = [\<lparr>held = h, cap = 2\<rparr>]" and h: "h = 1 + wins p2 + wins p3" "h \<le> 2"
    and ok2: "phase_ok h p2" and ok3: "phase_ok h p3"
    by (auto simp: race_inv_def)
  show ?thesis
  proof (cases who)
    case True
    from h have "1 \<le> h" by simp
    from start_step_single [OF led ok2 h(2) this] obtain p' b' h' where
      s: "start_step p2 b = (p', b')" "ledger b' = [\<lparr>held = h', cap = 2\<rparr>]"
        "h' = h + wins p' - wins p2" "wins p2 \<le> wins p'" "h' \<le> 2" "phase_ok h' p'"
        "h' = h \<or> h' = 2"
      by blast
    have "phase_ok h' p3"
      using phase_ok_mono [OF ok3 s(7)] .
    moreover have "h' = 1 + wins p' + wins p3"
      using s(3,4) h(1) by simp
    ultimately show ?thesis
      using s True st by (auto simp: race_inv_def race_step_def)
  next
    case False
    from h have "1 \<le> h" by simp
    from start_step_single [OF led ok3 h(2) this] obtain p' b' h' where
      s: "start_step p3 b = (p', b')" "ledger b' = [\<lparr>held = h', cap = 2\<rparr>]"
        "h' = h + wins p' - wins p3" "wins p3 \<le> wins p'" "h' \<le> 2" "phase_ok h' p'"
        "h' = h \<or> h' = 2"
      by blast
    have "phase_ok h' p2"
      using phase_ok_mono [OF ok2 s(7)] .
    moreover have "h' = 1 + wins p2 + wins p'"
      using s(3,4) h(1) by simp
    ultimately show ?thesis
      using s False st by (auto simp: race_inv_def race_step_def)
  qed
qed

lemma race_inv_run: "race_inv st \<Longrightarrow> race_inv (race schedule st)"
  by (induction schedule arbitrary: st) (simp_all add: race_step_inv)

lemma rank_le: "rank p \<le> 2"
  by (simp add: rank_def split: phase.splits)

lemma race_step_rank:
  assumes "race_inv (p2, p3, b)" and "race_step who (p2, p3, b) = (q2, q3, b')"
  shows "(who \<longrightarrow> min 2 (Suc (rank p2)) \<le> rank q2 \<and> q3 = p3)
       \<and> (\<not> who \<longrightarrow> min 2 (Suc (rank p3)) \<le> rank q3 \<and> q2 = p2)"
proof -
  from assms(1) obtain h where
    led: "ledger b = [\<lparr>held = h, cap = 2\<rparr>]" and h: "h = 1 + wins p2 + wins p3" "h \<le> 2"
    and ok2: "phase_ok h p2" and ok3: "phase_ok h p3"
    by (auto simp: race_inv_def)
  from h have h1: "1 \<le> h" by simp
  show ?thesis
  proof (cases who)
    case True
    from start_step_single [OF led ok2 h(2) h1] obtain p' c where
      "start_step p2 b = (p', c)" "min 2 (Suc (rank p2)) \<le> rank p'"
      by blast
    then show ?thesis
      using assms(2) True by (simp add: race_step_def)
  next
    case False
    from start_step_single [OF led ok3 h(2) h1] obtain p' c where
      "start_step p3 b = (p', c)" "min 2 (Suc (rank p3)) \<le> rank p'"
      by blast
    then show ?thesis
      using assms(2) False by (simp add: race_step_def)
  qed
qed

lemma race_progress:
  assumes "race_inv (p2, p3, b)" and "race schedule (p2, p3, b) = (q2, q3, b')"
  shows "min 2 (rank p2 + count_list schedule True) \<le> rank q2
       \<and> min 2 (rank p3 + count_list schedule False) \<le> rank q3"
  using assms
proof (induction schedule arbitrary: p2 p3 b)
  case Nil
  then show ?case by simp
next
  case (Cons who schedule)
  obtain r2 r3 c where step: "race_step who (p2, p3, b) = (r2, r3, c)"
    by (cases "race_step who (p2, p3, b)") auto
  have inv: "race_inv (r2, r3, c)"
    using race_step_inv [OF Cons.prems(1), of who] step by simp
  have rest: "race schedule (r2, r3, c) = (q2, q3, b')"
    using Cons.prems(2) step by simp
  note ih = Cons.IH [OF inv rest]
  note rk = race_step_rank [OF Cons.prems(1) step]
  show ?case
  proof (cases who)
    case True
    with rk have "min 2 (Suc (rank p2)) \<le> rank r2" "r3 = p3" by simp_all
    with ih True show ?thesis by auto
  next
    case False
    with rk have "min 2 (Suc (rank p3)) \<le> rank r3" "r2 = p2" by simp_all
    with ih False show ?thesis by auto
  qed
qed

lemma rank_finished: "2 \<le> rank p \<Longrightarrow> \<exists>r. p = Finished r"
  by (cases p) (simp_all add: rank_def)

lemma race_start_inv:
  "ledger b = [\<lparr>held = 1, cap = 2\<rparr>] \<Longrightarrow> race_inv (Selecting, Selecting, b)"
  by (simp add: race_inv_def wins_def phase_ok_def)

lemma start_env_granted: "fst (start_env (client_answer keys r)) = granted r"
  by (cases r) (simp_all add: start_env_def client_answer_def granted_def)

lemma wins_granted: "wins (Finished r) = (if granted r then 1 else 0)"
  by (simp add: wins_def granted_def split: start_result.splits)

text \<open>
  Claim C1. The limit is 2 and one instance is held. Two start requests run
  concurrently, each first choosing its server and then admitting in one atomic step,
  under any schedule that lets both finish. Then both have an answer, exactly one of
  them is a grant, so exactly one \<^verbatim>\<open>start_env\<close> records a success, the count held
  afterwards is 2, and the script's verification finds two successes, one failure and
  no overcommit. After any part of any schedule the count is at most 2.
\<close>

theorem race_admits_exactly_one:
  assumes "ledger b = [\<lparr>held = 1, cap = 2\<rparr>]"
    and "2 \<le> count_list schedule True" and "2 \<le> count_list schedule False"
  shows "\<exists>r2 r3 b'.
           race schedule (Selecting, Selecting, b) = (Finished r2, Finished r3, b')
           \<and> (granted r2 \<longleftrightarrow> \<not> granted r3)
           \<and> ledger b' = [\<lparr>held = 2, cap = 2\<rparr>]
           \<and> Snapshot 0 b' = Some \<lparr>current = 2, limit = 2\<rparr>
           \<and> (fst (start_env (client_answer keys r2)) \<longleftrightarrow>
                \<not> fst (start_env (client_answer keys r3)))
           \<and> race_verification
                \<lparr>env1 = True,
                   concurrent_env2 = fst (start_env (client_answer keys r2)),
                   concurrent_env3 = fst (start_env (client_answer keys r3))\<rparr>
                (Snapshot 0 b') = PassedNoOvercommit
           \<and> (\<forall>prefix. \<exists>h. h \<le> 2 \<and>
                 ledger (snd (snd (race prefix (Selecting, Selecting, b))))
                   = [\<lparr>held = h, cap = 2\<rparr>])"
proof -
  obtain q2 q3 b' where run: "race schedule (Selecting, Selecting, b) = (q2, q3, b')"
    by (cases "race schedule (Selecting, Selecting, b)") auto
  note start = race_start_inv [OF assms(1)]
  from race_progress [OF start run] assms(2,3)
  have "2 \<le> rank q2" "2 \<le> rank q3"
    by (simp_all add: rank_def)
  then obtain r2 r3 where q: "q2 = Finished r2" "q3 = Finished r3"
    using rank_finished by blast
  from race_inv_run [OF start, of schedule] run q obtain h where
    led: "ledger b' = [\<lparr>held = h, cap = 2\<rparr>]"
    and h: "h = 1 + wins (Finished r2) + wins (Finished r3)" "h \<le> 2"
    and ok: "phase_ok h (Finished r2)" "phase_ok h (Finished r3)"
    by (auto simp: race_inv_def)
  have one: "granted r2 \<longleftrightarrow> \<not> granted r3"
    using h ok
    by (cases r2; cases r3) (simp_all add: wins_def granted_def phase_ok_def)
  then have h2: "h = 2"
    using h by (auto simp: wins_granted)
  have snap: "Snapshot 0 b' = Some \<lparr>current = 2, limit = 2\<rparr>"
    by (simp add: Snapshot_def led h2)
  have "race_verification
          \<lparr>env1 = True,
             concurrent_env2 = fst (start_env (client_answer keys r2)),
             concurrent_env3 = fst (start_env (client_answer keys r3))\<rparr>
          (Snapshot 0 b') = PassedNoOvercommit"
    using one
    by (auto simp: race_verification_def race_success_count_def race_failure_count_def snap
        start_env_granted)
  moreover have "\<forall>prefix. \<exists>h. h \<le> 2 \<and>
      ledger (snd (snd (race prefix (Selecting, Selecting, b)))) = [\<lparr>held = h, cap = 2\<rparr>]"
  proof
    fix prefix
    obtain a2 a3 c where "race prefix (Selecting, Selecting, b) = (a2, a3, c)"
      by (cases "race prefix (Selecting, Selecting, b)") auto
    with race_inv_run [OF start, of prefix]
    show "\<exists>h. h \<le> 2 \<and>
      ledger (snd (snd (race prefix (Selecting, Selecting, b)))) = [\<lparr>held = h, cap = 2\<rparr>]"
      by (auto simp: race_inv_def)
  qed
  ultimately show ?thesis
    using run q one led h2 snap by (simp add: start_env_granted)
qed

lemma example_race:
  "race [True, False, False, True]
     (Selecting, Selecting, fresh_broker [2]\<lparr>ledger := [\<lparr>held = 1, cap = 2\<rparr>]\<rparr>)
   = (Finished QuotaExceeded, Finished (Granted 0 0),
      \<lparr>ledger = [\<lparr>held = 2, cap = 2\<rparr>], cursor = 0, instances = [(0, 0)], next_id = 1\<rparr>)"
  by code_simp

theorem race_admits_exactly_one_witness:
  "ledger (fresh_broker [2]\<lparr>ledger := [\<lparr>held = 1, cap = 2\<rparr>]\<rparr>) = [\<lparr>held = 1, cap = 2\<rparr>]
   \<and> 2 \<le> count_list [True, False, False, True] True
   \<and> 2 \<le> count_list [True, False, False, True] False
   \<and> race [True, False, False, True]
        (Selecting, Selecting, fresh_broker [2]\<lparr>ledger := [\<lparr>held = 1, cap = 2\<rparr>]\<rparr>)
      = (Finished QuotaExceeded, Finished (Granted 0 0),
         \<lparr>ledger = [\<lparr>held = 2, cap = 2\<rparr>], cursor = 0, instances = [(0, 0)], next_id = 1\<rparr>)
   \<and> \<not> granted QuotaExceeded \<and> granted (Granted 0 0)
   \<and> race_verification \<lparr>env1 = True, concurrent_env2 = False, concurrent_env3 = True\<rparr>
        (Some \<lparr>current = 2, limit = 2\<rparr>) = PassedNoOvercommit"
proof -
  have l: "ledger (fresh_broker [2]\<lparr>ledger := [\<lparr>held = 1, cap = 2\<rparr>]\<rparr>) = [\<lparr>held = 1, cap = 2\<rparr>]"
    by simp
  have c: "2 \<le> count_list [True, False, False, True] True"
    "2 \<le> count_list [True, False, False, True] False"
    by simp_all
  have g: "\<not> granted QuotaExceeded" "granted (Granted 0 0)"
    by (simp_all add: granted_def)
  have "race_verification
          \<lparr>env1 = True,
             concurrent_env2 = fst (start_env (client_answer server_keys QuotaExceeded)),
             concurrent_env3 = fst (start_env (client_answer server_keys (Granted 0 0)))\<rparr>
          (Snapshot 0
            \<lparr>ledger = [\<lparr>held = 2, cap = 2\<rparr>], cursor = 0, instances = [(0, 0)], next_id = 1\<rparr>)
        = PassedNoOvercommit"
    using race_admits_exactly_one [OF l c, of server_keys, unfolded example_race] by blast
  then have "race_verification \<lparr>env1 = True, concurrent_env2 = False, concurrent_env3 = True\<rparr>
        (Some \<lparr>current = 2, limit = 2\<rparr>) = PassedNoOvercommit"
    by (simp add: g Snapshot_def start_env_granted)
  with l c g example_race show ?thesis
    by blast
qed

section \<open>The broker on several servers\<close>

lemma rotation_lt: "i \<in> set (rotation n k) \<Longrightarrow> i < n"
  by (auto simp: rotation_def)

lemma most_headroom_mem: "most_headroom cs best js \<in> insert best (set js)"
  by (induction js arbitrary: best) auto

lemma Choose_Some:
  assumes "Choose cs k = Some sid"
  shows "sid < length cs \<and> held (cs ! sid) < cap (cs ! sid)"
proof -
  from assms obtain i js where c: "candidates cs k = i # js" and s: "sid = most_headroom cs i js"
    by (auto simp: Choose_def split: list.splits)
  have "sid \<in> set (candidates cs k)"
    using most_headroom_mem [of cs i js] c s by auto
  then show ?thesis
    by (auto simp: candidates_def dest: rotation_lt)
qed

lemma Start_cases:
  "(\<exists>sid. Choose (ledger b) (cursor b) = Some sid \<and> sid < length (ledger b)
       \<and> Start b = (Granted (next_id b) sid,
            b\<lparr>ledger := (ledger b)[sid := (ledger b ! sid)\<lparr>held := held (ledger b ! sid) + 1\<rparr>],
              cursor := (sid + 1) mod length (ledger b),
              instances := instances b @ [(next_id b, sid)],
              next_id := next_id b + 1\<rparr>))
   \<or> (Choose (ledger b) (cursor b) = None \<and> Start b = (QuotaExceeded, b))"
proof (cases "Choose (ledger b) (cursor b)")
  case None
  then show ?thesis by (simp add: Start_def)
next
  case (Some sid)
  from Choose_Some [OF Some] show ?thesis
    using Some by (simp add: Start_def admit_def TryAdmit_def Let_def)
qed

lemma DesktopEnv_cases:
  assumes "length (ledger b) = length keys"
  shows "(\<exists>env b'. DesktopEnv keys b = (Inr env, b') \<and> remote_docker_server env \<in> set keys
            \<and> length (ledger b') = length keys)
       \<or> (DesktopEnv keys b = (Inl (RuntimeError quota_denial_message), b))"
  using Start_cases [of b] assms
  by (auto simp: DesktopEnv_def client_answer_def)

section \<open>The loop of env\_load\_test\_multi.py\<close>

lemma usage_update:
  "usage (AList.update k v su) k' = (if k' = k then v else usage su k')"
  by (simp add: usage_def update_conv')

lemma usage_update_fun:
  "usage (AList.update k v su) = (\<lambda>k'. if k' = k then v else usage su k')"
  by (rule ext) (simp add: usage_update)

lemma sum_list_untouched:
  "a \<notin> set xs \<Longrightarrow> sum_list (map (\<lambda>x. if x = a then c else f x) xs) = sum_list (map f xs)"
  by (induction xs) auto

lemma sum_list_bump:
  "distinct xs \<Longrightarrow> a \<in> set xs \<Longrightarrow>
   sum_list (map (\<lambda>x. if x = a then Suc (f a) else f x) xs) = Suc (sum_list (map f xs))"
proof (induction xs)
  case Nil
  then show ?case by simp
next
  case (Cons x xs)
  show ?case
  proof (cases "x = a")
    case True
    with Cons.prems have "a \<notin> set xs" by simp
    from sum_list_untouched [OF this, of "Suc (f a)" f] True show ?thesis by simp
  next
    case False
    with Cons show ?thesis by simp
  qed
qed

lemma usage_inv_start: "usage_inv keys multi_test_start"
  by (simp add: usage_inv_def multi_test_start_def usage_def)

lemma usage_inv_success:
  assumes "usage_inv keys t" and "distinct keys" and "k \<in> set keys"
  shows "usage_inv keys
           (t\<lparr>server_usage := AList.update k (usage (server_usage t) k + 1) (server_usage t),
              environments := envs, success_count := success_count t + 1\<rparr>)"
proof -
  have "sum_list (map (usage (AList.update k (usage (server_usage t) k + 1) (server_usage t))) keys)
      = sum_list (map (usage (server_usage t)) keys) + 1"
    using sum_list_bump [OF assms(2,3), of "usage (server_usage t)"]
    by (simp add: usage_update_fun)
  moreover have "fst ` set (AList.update k (usage (server_usage t) k + 1) (server_usage t))
      \<subseteq> set keys"
    using assms(1,3) by (auto simp: usage_inv_def dom_update)
  moreover have "distinct (map fst (AList.update k (usage (server_usage t) k + 1) (server_usage t)))"
    using assms(1) by (simp add: usage_inv_def distinct_update)
  ultimately show ?thesis
    using assms(1) by (simp add: usage_inv_def)
qed

lemma attempt_multi_inv:
  assumes "usage_inv keys t" and "distinct keys" and "length (ledger b) = length keys"
    and "attempt_multi (DesktopEnv keys) (b, t) = (b', t')"
  shows "usage_inv keys t' \<and> length (ledger b') = length keys"
proof -
  from DesktopEnv_cases [OF assms(3)] show ?thesis
  proof
    assume "\<exists>env c. DesktopEnv keys b = (Inr env, c) \<and> remote_docker_server env \<in> set keys
            \<and> length (ledger c) = length keys"
    then obtain env c where d: "DesktopEnv keys b = (Inr env, c)"
      "remote_docker_server env \<in> set keys" "length (ledger c) = length keys"
      by blast
    from usage_inv_success [OF assms(1,2) d(2)] d assms(4) show ?thesis
      by (auto simp: attempt_multi_def)
  next
    assume "DesktopEnv keys b = (Inl (RuntimeError quota_denial_message), b)"
    with assms(4) have "b' = b" "server_usage t' = server_usage t"
      "success_count t' = success_count t"
      by (auto simp: attempt_multi_def)
    with assms(1,3) show ?thesis
      by (simp add: usage_inv_def)
  qed
qed

lemma attempts_multi_inv:
  assumes "usage_inv keys t" and "distinct keys" and "length (ledger b) = length keys"
  shows "usage_inv keys (snd (attempts_multi (DesktopEnv keys) n (b, t)))"
  using assms
proof (induction n arbitrary: b t)
  case 0
  then show ?case by simp
next
  case (Suc n)
  obtain b' t' where step: "attempt_multi (DesktopEnv keys) (b, t) = (b', t')"
    by (cases "attempt_multi (DesktopEnv keys) (b, t)") auto
  from attempt_multi_inv [OF Suc.prems step] Suc.IH [OF _ Suc.prems(2), of t' b'] step
  show ?case by simp
qed

lemma sum_list_le_const:
  "\<forall>x\<in>set xs. f x \<le> (q::nat) \<Longrightarrow> sum_list (map f xs) \<le> q * length xs"
  by (induction xs) auto

lemma sum_list_all_const:
  "\<forall>x\<in>set xs. f x \<le> (q::nat) \<Longrightarrow> sum_list (map f xs) = q * length xs
   \<Longrightarrow> \<forall>x\<in>set xs. f x = q"
proof (induction xs)
  case Nil
  then show ?case by simp
next
  case (Cons x xs)
  have "sum_list (map f xs) \<le> q * length xs"
    using Cons.prems(1) by (simp add: sum_list_le_const)
  moreover have "f x \<le> q"
    using Cons.prems(1) by simp
  moreover have "f x + sum_list (map f xs) = q + q * length xs"
    using Cons.prems(2) by simp
  ultimately have "f x = q" "sum_list (map f xs) = q * length xs"
    by linarith+
  with Cons show ?case by simp
qed

lemma sum_list_const:
  "\<forall>x\<in>set xs. f x = (q::nat) \<Longrightarrow> sum_list (map f xs) = q * length xs"
  by (induction xs) auto

lemma usage_entry:
  "distinct (map fst su) \<Longrightarrow> (k, v) \<in> set su \<Longrightarrow> usage su k = v"
  by (simp add: usage_def)

lemma usage_absent_or_entry:
  "usage su k = 0 \<or> (k, usage su k) \<in> set su"
  by (auto simp: usage_def split: option.splits dest: map_of_SomeD)

lemma balanced_iff:
  assumes "usage_inv keys t" and "distinct keys"
  shows "balanced_distribution (length keys) t \<longleftrightarrow>
           (\<forall>k\<in>set keys. usage (server_usage t) k = PER_URL_QUOTA)"
proof
  assume bal: "balanced_distribution (length keys) t"
  then have s: "success_count t = PER_URL_QUOTA * length keys"
    and v: "\<forall>(k, n)\<in>set (server_usage t). n = PER_URL_QUOTA"
    by (auto simp: balanced_distribution_def MAX_ATTEMPTS_multi_def list_all_iff
        split: if_splits)
  have "\<forall>k\<in>set keys. usage (server_usage t) k \<le> PER_URL_QUOTA"
  proof
    fix k assume "k \<in> set keys"
    from usage_absent_or_entry [of "server_usage t" k] v
    show "usage (server_usage t) k \<le> PER_URL_QUOTA"
      by auto
  qed
  moreover have "sum_list (map (usage (server_usage t)) keys) = PER_URL_QUOTA * length keys"
    using assms(1) s by (simp add: usage_inv_def)
  ultimately show "\<forall>k\<in>set keys. usage (server_usage t) k = PER_URL_QUOTA"
    by (rule sum_list_all_const)
next
  assume all: "\<forall>k\<in>set keys. usage (server_usage t) k = PER_URL_QUOTA"
  have "success_count t = PER_URL_QUOTA * length keys"
    using assms(1) sum_list_const [OF all] by (simp add: usage_inv_def)
  moreover have "\<forall>(k, n)\<in>set (server_usage t). n = PER_URL_QUOTA"
  proof (clarify)
    fix k n assume e: "(k, n) \<in> set (server_usage t)"
    then have "k \<in> set keys"
      using assms(1) by (force simp: usage_inv_def)
    moreover have "usage (server_usage t) k = n"
      using assms(1) e by (simp add: usage_inv_def usage_entry)
    ultimately show "n = PER_URL_QUOTA"
      using all by auto
  qed
  ultimately show "balanced_distribution (length keys) t"
    by (auto simp: balanced_distribution_def MAX_ATTEMPTS_multi_def list_all_iff)
qed

section \<open>Twenty-two starts on two servers\<close>

lemma attempts_multi_add:
  "attempts_multi launch_env (m + n) st = attempts_multi launch_env n (attempts_multi launch_env m st)"
  by (induction m arbitrary: st) simp_all

lemma twenty_starts:
  "attempts_multi (DesktopEnv server_keys) 20 (fresh_broker [10, 10], multi_test_start)
   = (\<lparr>ledger = [\<lparr>held = 10, cap = 10\<rparr>, \<lparr>held = 10, cap = 10\<rparr>], cursor = 0,
       instances = [(0, 0), (1, 1), (2, 0), (3, 1), (4, 0), (5, 1), (6, 0), (7, 1), (8, 0),
         (9, 1), (10, 0), (11, 1), (12, 0), (13, 1), (14, 0), (15, 1), (16, 0), (17, 1),
         (18, 0), (19, 1)],
       next_id = 20\<rparr>,
      \<lparr>environments =
        [\<lparr>emulator_id = 0, remote_docker_server = ''10.1.110.48:50003''\<rparr>,
         \<lparr>emulator_id = 1, remote_docker_server = ''10.1.110.43:50003''\<rparr>,
         \<lparr>emulator_id = 2, remote_docker_server = ''10.1.110.48:50003''\<rparr>,
         \<lparr>emulator_id = 3, remote_docker_server = ''10.1.110.43:50003''\<rparr>,
         \<lparr>emulator_id = 4, remote_docker_server = ''10.1.110.48:50003''\<rparr>,
         \<lparr>emulator_id = 5, remote_docker_server = ''10.1.110.43:50003''\<rparr>,
         \<lparr>emulator_id = 6, remote_docker_server = ''10.1.110.48:50003''\<rparr>,
         \<lparr>emulator_id = 7, remote_docker_server = ''10.1.110.43:50003''\<rparr>,
         \<lparr>emulator_id = 8, remote_docker_server = ''10.1.110.48:50003''\<rparr>,
         \<lparr>emulator_id = 9, remote_docker_server = ''10.1.110.43:50003''\<rparr>,
         \<lparr>emulator_id = 10, remote_docker_server = ''10.1.110.48:50003''\<rparr>,
         \<lparr>emulator_id = 11, remote_docker_server = ''10.1.110.43:50003''\<rparr>,
         \<lparr>emulator_id = 12, remote_docker_server = ''10.1.110.48:50003''\<rparr>,
         \<lparr>emulator_id = 13, remote_docker_server = ''10.1.110.43:50003''\<rparr>,
         \<lparr>emulator_id = 14, remote_docker_server = ''10.1.110.48:50003''\<rparr>,
         \<lparr>emulator_id = 15, remote_docker_server = ''10.1.110.43:50003''\<rparr>,
         \<lparr>emulator_id = 16, remote_docker_server = ''10.1.110.48:50003''\<rparr>,
         \<lparr>emulator_id = 17, remote_docker_server = ''10.1.110.43:50003''\<rparr>,
         \<lparr>emulator_id = 18, remote_docker_server = ''10.1.110.48:50003''\<rparr>,
         \<lparr>emulator_id = 19, remote_docker_server = ''10.1.110.43:50003''\<rparr>],
       success_count = 20, failure_count = 0, causes = [],
       server_usage = [(''10.1.110.48:50003'', 10), (''10.1.110.43:50003'', 10)]\<rparr>)"
  by code_simp

lemma Choose_full:
  assumes "\<forall>c\<in>set cs. cap c \<le> held c"
  shows "Choose cs k = None"
proof (cases "Choose cs k")
  case None
  then show ?thesis .
next
  case (Some sid)
  from Choose_Some [OF Some] have "sid < length cs" "held (cs ! sid) < cap (cs ! sid)"
    by simp_all
  with assms show ?thesis
    using nth_mem [of sid cs] by fastforce
qed

lemma full_two_denied:
  assumes "ledger b = [\<lparr>held = 10, cap = 10\<rparr>, \<lparr>held = 10, cap = 10\<rparr>]"
  shows "DesktopEnv keys b = (Inl (RuntimeError quota_denial_message), b)"
  using assms by (simp add: DesktopEnv_def client_answer_def Start_def Choose_full)

lemma attempt_multi_denied:
  assumes "DesktopEnv keys b = (Inl (RuntimeError quota_denial_message), b)"
  shows "attempt_multi (DesktopEnv keys) (b, t) =
           (b, t\<lparr>failure_count := failure_count t + 1, causes := causes t @ [QuotaLimit]\<rparr>)"
  using assms by (simp add: attempt_multi_def quota_denial_recognised)

lemma twenty_two_starts:
  "snd (attempts_multi (DesktopEnv server_keys) 22 (fresh_broker [10, 10], multi_test_start))
   = (snd (attempts_multi (DesktopEnv server_keys) 20 (fresh_broker [10, 10], multi_test_start)))
       \<lparr>failure_count := 2, causes := [QuotaLimit, QuotaLimit]\<rparr>"
proof -
  have "attempts_multi (DesktopEnv server_keys) (20 + 2) (fresh_broker [10, 10], multi_test_start)
      = attempts_multi (DesktopEnv server_keys) 2
          (attempts_multi (DesktopEnv server_keys) 20 (fresh_broker [10, 10], multi_test_start))"
    by (rule attempts_multi_add)
  then show ?thesis
    by (simp add: twenty_starts numeral_2_eq_2 attempt_multi_denied full_two_denied)
qed

lemma fresh_two: "length (ledger (fresh_broker [l0, l1])) = 2"
  by (simp add: fresh_broker_def)

lemma server_keys_distinct: "distinct server_keys" "length server_keys = 2"
  by (simp_all add: server_keys_def)

text \<open>
  Claim C4. With two backend servers of limit 10 each and nothing held, the first 20
  starts of the script all succeed, 10 on each server; the 21st and the 22nd are denied
  with the message of a quota denial, and the script's three checks pass. Whatever the
  servers hold and allow, the balanced-distribution check passes at the end of the
  script iff the usage count of every server of the list is the per-server quota, a
  server that was never used counting 0; the test on the success count in the script is
  then implied.
\<close>

theorem fair_distribution:
  "success_count (snd (attempts_multi (DesktopEnv server_keys) 20
       (fresh_broker [10, 10], multi_test_start))) = 20
   \<and> failure_count (snd (attempts_multi (DesktopEnv server_keys) 20
       (fresh_broker [10, 10], multi_test_start))) = 0
   \<and> server_usage (snd (attempts_multi (DesktopEnv server_keys) 20
       (fresh_broker [10, 10], multi_test_start)))
       = [(server_keys ! 0, 10), (server_keys ! 1, 10)]
   \<and> success_count (env_load_test_multi (DesktopEnv server_keys) 2 (fresh_broker [10, 10])) = 20
   \<and> failure_count (env_load_test_multi (DesktopEnv server_keys) 2 (fresh_broker [10, 10])) = 2
   \<and> causes (env_load_test_multi (DesktopEnv server_keys) 2 (fresh_broker [10, 10]))
       = [QuotaLimit, QuotaLimit]
   \<and> server_usage (env_load_test_multi (DesktopEnv server_keys) 2 (fresh_broker [10, 10]))
       = [(server_keys ! 0, 10), (server_keys ! 1, 10)]
   \<and> multi_test_passes 2 (env_load_test_multi (DesktopEnv server_keys) 2 (fresh_broker [10, 10]))
   \<and> all_servers_used 2 (env_load_test_multi (DesktopEnv server_keys) 2 (fresh_broker [10, 10]))
   \<and> balanced_distribution 2
        (env_load_test_multi (DesktopEnv server_keys) 2 (fresh_broker [10, 10]))
   \<and> (distinct keys \<and> length (ledger b) = length keys \<longrightarrow>
        (balanced_distribution (length keys)
           (env_load_test_multi (DesktopEnv keys) (length keys) b)
         \<longleftrightarrow> (\<forall>k\<in>set keys.
                usage (server_usage (env_load_test_multi (DesktopEnv keys) (length keys) b)) k
                  = PER_URL_QUOTA)))"
proof -
  have general: "distinct keys \<and> length (ledger b) = length keys \<longrightarrow>
        (balanced_distribution (length keys)
           (env_load_test_multi (DesktopEnv keys) (length keys) b)
         \<longleftrightarrow> (\<forall>k\<in>set keys.
                usage (server_usage (env_load_test_multi (DesktopEnv keys) (length keys) b)) k
                  = PER_URL_QUOTA))"
  proof
    assume a: "distinct keys \<and> length (ledger b) = length keys"
    then have "usage_inv keys (env_load_test_multi (DesktopEnv keys) (length keys) b)"
      unfolding env_load_test_multi_def
      using attempts_multi_inv [OF usage_inv_start] by blast
    from balanced_iff [OF this] a
    show "balanced_distribution (length keys)
           (env_load_test_multi (DesktopEnv keys) (length keys) b)
         \<longleftrightarrow> (\<forall>k\<in>set keys.
                usage (server_usage (env_load_test_multi (DesktopEnv keys) (length keys) b)) k
                  = PER_URL_QUOTA)"
      by blast
  qed
  have script: "env_load_test_multi (DesktopEnv server_keys) 2 (fresh_broker [10, 10])
    = (snd (attempts_multi (DesktopEnv server_keys) 20 (fresh_broker [10, 10], multi_test_start)))
       \<lparr>failure_count := 2, causes := [QuotaLimit, QuotaLimit]\<rparr>"
    using twenty_two_starts
    by (simp add: env_load_test_multi_def TOTAL_ATTEMPTS_multi_def MAX_ATTEMPTS_multi_def
        PER_URL_QUOTA_def)
  have k01: "server_keys ! 0 = ''10.1.110.48:50003''" "server_keys ! Suc 0 = ''10.1.110.43:50003''"
    by (simp_all add: server_keys_def)
  have "success_count (snd (attempts_multi (DesktopEnv server_keys) 20
       (fresh_broker [10, 10], multi_test_start))) = 20
   \<and> failure_count (snd (attempts_multi (DesktopEnv server_keys) 20
       (fresh_broker [10, 10], multi_test_start))) = 0
   \<and> server_usage (snd (attempts_multi (DesktopEnv server_keys) 20
       (fresh_broker [10, 10], multi_test_start)))
       = [(server_keys ! 0, 10), (server_keys ! 1, 10)]
   \<and> success_count (env_load_test_multi (DesktopEnv server_keys) 2 (fresh_broker [10, 10])) = 20
   \<and> failure_count (env_load_test_multi (DesktopEnv server_keys) 2 (fresh_broker [10, 10])) = 2
   \<and> causes (env_load_test_multi (DesktopEnv server_keys) 2 (fresh_broker [10, 10]))
       = [QuotaLimit, QuotaLimit]
   \<and> server_usage (env_load_test_multi (DesktopEnv server_keys) 2 (fresh_broker [10, 10]))
       = [(server_keys ! 0, 10), (server_keys ! 1, 10)]
   \<and> multi_test_passes 2 (env_load_test_multi (DesktopEnv server_keys) 2 (fresh_broker [10, 10]))
   \<and> all_servers_used 2 (env_load_test_multi (DesktopEnv server_keys) 2 (fresh_broker [10, 10]))
   \<and> balanced_distribution 2
        (env_load_test_multi (DesktopEnv server_keys) 2 (fresh_broker [10, 10]))"
    by (simp add: script twenty_starts k01 multi_test_passes_def
        all_servers_used_def balanced_distribution_def MAX_ATTEMPTS_multi_def PER_URL_QUOTA_def)
  with general show ?thesis
    by blast
qed

theorem fair_distribution_witness:
  "distinct server_keys \<and> length (ledger (fresh_broker [10, 10])) = length server_keys
   \<and> balanced_distribution (length server_keys)
        (env_load_test_multi (DesktopEnv server_keys) (length server_keys) (fresh_broker [10, 10]))
   \<and> usage (server_usage (env_load_test_multi (DesktopEnv server_keys) (length server_keys)
        (fresh_broker [10, 10]))) (server_keys ! 0) = PER_URL_QUOTA
   \<and> usage (server_usage (env_load_test_multi (DesktopEnv server_keys) (length server_keys)
        (fresh_broker [10, 10]))) (server_keys ! 1) = PER_URL_QUOTA
   \<and> distinct server_keys \<and> length (ledger (fresh_broker [10, 3])) = length server_keys
   \<and> \<not> balanced_distribution (length server_keys)
        (env_load_test_multi (DesktopEnv server_keys) (length server_keys) (fresh_broker [10, 3]))
   \<and> usage (server_usage (env_load_test_multi (DesktopEnv server_keys) (length server_keys)
        (fresh_broker [10, 3]))) (server_keys ! 1) \<noteq> PER_URL_QUOTA"
proof -
  have u: "usage (server_usage (env_load_test_multi (DesktopEnv server_keys)
      (length server_keys) (fresh_broker [10, 3]))) (server_keys ! 1) = 3"
    by code_simp
  have k: "server_keys ! 0 \<in> set server_keys" "server_keys ! 1 \<in> set server_keys"
    by (simp_all add: server_keys_def)
  have hyp: "distinct server_keys \<and> length (ledger (fresh_broker [l0, l1])) = length server_keys"
    for l0 l1
    by (simp add: server_keys_distinct fresh_two)
  have bal: "balanced_distribution (length server_keys)
        (env_load_test_multi (DesktopEnv server_keys) (length server_keys) (fresh_broker [10, 10]))"
    using fair_distribution [of server_keys "fresh_broker [10, 10]"]
    by (simp add: server_keys_distinct)
  show ?thesis
    using fair_distribution [of server_keys "fresh_broker [10, 10]"]
      fair_distribution [of server_keys "fresh_broker [10, 3]"] hyp bal u k
    by (auto simp: PER_URL_QUOTA_def)
qed

section \<open>Release and reuse\<close>






end
